theory Spec2Isabelle
  imports Main
begin

section \<open>Token stream, diagnostics and collaborators\<close>

text \<open>
  The statement parser of \<^verbatim>\<open>clang/Parse/ParseStmt.cpp\<close> reads the current token
  \<^verbatim>\<open>Tok\<close>, advances the stream and reports diagnostics. The token kinds are the
  ones the file names (\<^verbatim>\<open>tok::l_brace\<close>, \<^verbatim>\<open>tok::kw_if\<close>, ...) and a few more that
  occur in statements.
\<close>

datatype TokenKind =
    eof | identifier_tok | numeric_constant
  | l_paren | r_paren | l_brace | r_brace | semi | colon | star | equal_tok
  | kw_if | kw_else | kw_switch | kw_case | kw_default
  | kw_while | kw_do | kw_for
  | kw_goto | kw_continue | kw_break | kw_return
  | kw_int

type_synonym SourceLocation = nat

record Token =
  kind :: TokenKind
  loc :: SourceLocation

datatype DiagKind =
    err_expected_statement_declaration
  | err_expected_semi_after
  | err_expected_rbrace
  | err_expected_lparen_after
  | err_expected_while
  | err_matching
  | err_expected_semi_for
  | err_expected_rparen
  | ext_c99_variable_decl_in_for_loop
  | ext_gnu_indirect_goto

record Diagnostic =
  dLoc :: SourceLocation
  dKind :: DiagKind
  dArg :: string

text \<open>
  The parser state: the tokens not yet consumed (the end of the list is the end of the
  input, where the lexer reports \<^verbatim>\<open>tok::eof\<close> at location \<open>eofLoc\<close>), and the
  diagnostics reported so far, oldest first.
\<close>

record PState =
  toks :: "Token list"
  eofLoc :: SourceLocation
  diags :: "Diagnostic list"

definition Tok :: "PState \<Rightarrow> Token" where
  "Tok s = (case toks s of [] \<Rightarrow> \<lparr>kind = eof, loc = eofLoc s\<rparr> | t # _ \<Rightarrow> t)"

text \<open>
  Modelled from the spec: the token stream's operations \<^verbatim>\<open>ConsumeToken\<close>,
  \<^verbatim>\<open>ConsumeBrace\<close> and \<^verbatim>\<open>ConsumeParen\<close> are declared in \<^verbatim>\<open>Parser.h\<close>, which is
  not part of the source at hand. Each advances the stream by one token; at the end of
  the input there is nothing to advance over.
\<close>

definition ConsumeToken :: "PState \<Rightarrow> PState" where
  "ConsumeToken s = s\<lparr>toks := tl (toks s)\<rparr>"

definition ConsumeBrace :: "PState \<Rightarrow> PState" where
  "ConsumeBrace s = s\<lparr>toks := tl (toks s)\<rparr>"

definition ConsumeParen :: "PState \<Rightarrow> PState" where
  "ConsumeParen s = s\<lparr>toks := tl (toks s)\<rparr>"

text \<open>
  Modelled from the spec: \<^verbatim>\<open>Diag\<close> (declared in \<^verbatim>\<open>Parser.h\<close>) records a diagnostic
  tagged by kind and source location with an optional argument, and never halts
  parsing. The empty string stands for no argument.
\<close>

definition Diag :: "SourceLocation \<Rightarrow> DiagKind \<Rightarrow> string \<Rightarrow> PState \<Rightarrow> PState" where
  "Diag l k a s = s\<lparr>diags := diags s @ [\<lparr>dLoc = l, dKind = k, dArg = a\<rparr>]\<rparr>"

datatype DeclaratorContext = FileContext | BlockContext | ForContext

text \<open>
  The collaborators that live outside the file: the language options read through
  \<^verbatim>\<open>getLang()\<close>, the expression parser, the declaration parser with its lookahead
  predicate, and the recovery routine \<^verbatim>\<open>SkipUntil\<close>. They are parameters of every
  routine below; nothing is assumed about them unless a theorem says so.
\<close>

record Env =
  C99 :: bool
  NoExtensions :: bool
  ParseExpression :: "PState \<Rightarrow> PState"
  ParseParenExpression :: "PState \<Rightarrow> PState"
  isDeclarationSpecifier :: "PState \<Rightarrow> bool"
  ParseDeclaration :: "DeclaratorContext \<Rightarrow> PState \<Rightarrow> PState"
  SkipUntil :: "TokenKind \<Rightarrow> PState \<Rightarrow> PState"

section \<open>Outcomes\<close>

text \<open>
  A routine either returns with a new state, or stops at one of the \<^verbatim>\<open>assert\<close>s that
  open the statement routines, or (in the model only) runs out of the fuel that bounds
  the depth of the recursion.
\<close>

datatype 'a outcome = Returned 'a | AssertionFailed | OutOfFuel

definition andThen :: "'a outcome \<Rightarrow> ('a \<Rightarrow> 'b outcome) \<Rightarrow> 'b outcome" where
  "andThen r f = (case r of Returned x \<Rightarrow> f x
                   | AssertionFailed \<Rightarrow> AssertionFailed
                   | OutOfFuel \<Rightarrow> OutOfFuel)"

section \<open>The statement parser\<close>

text \<open>
  The tail of \<^verbatim>\<open>ParseStatementOrDeclaration\<close>, reached by the cases that
  \<^verbatim>\<open>break\<close> out of the switch with \<^verbatim>\<open>SemiError\<close> set: the statement must end in a
  semicolon.
\<close>

definition MustEndInSemi :: "Env \<Rightarrow> string \<Rightarrow> PState \<Rightarrow> PState" where
  "MustEndInSemi E SemiError s =
     (if kind (Tok s) = semi then ConsumeToken s
      else SkipUntil E semi (Diag (loc (Tok s)) err_expected_semi_after SemiError s))"

definition ParseGotoStatement :: "Env \<Rightarrow> PState \<Rightarrow> PState outcome" where
  "ParseGotoStatement E s =
     (if kind (Tok s) \<noteq> kw_goto then AssertionFailed
      else let s1 = ConsumeToken s in
        if kind (Tok s1) = identifier_tok then Returned (ConsumeToken s1)
        else if kind (Tok s1) = star \<and> \<not> NoExtensions E then
          Returned (ParseExpression E
            (ConsumeToken (Diag (loc (Tok s1)) ext_gnu_indirect_goto [] s1)))
        else Returned s1)"

definition ParseReturnStatement :: "Env \<Rightarrow> PState \<Rightarrow> PState outcome" where
  "ParseReturnStatement E s =
     (if kind (Tok s) \<noteq> kw_return then AssertionFailed
      else let s1 = ConsumeToken s in
        if kind (Tok s1) \<noteq> semi then Returned (ParseExpression E s1)
        else Returned s1)"

text \<open>
  The three clauses of the \<^verbatim>\<open>for\<close> specifier call collaborators only; they are the
  sections of \<^verbatim>\<open>ParseForStatement\<close> that its comments mark off.
\<close>

definition ForFirstPart :: "Env \<Rightarrow> SourceLocation \<Rightarrow> PState \<Rightarrow> PState" where
  "ForFirstPart E ForLoc s =
     (if kind (Tok s) = semi then ConsumeToken s
      else if isDeclarationSpecifier E s then
        ParseDeclaration E ForContext
          (if \<not> C99 E then Diag (loc (Tok s)) ext_c99_variable_decl_in_for_loop [] s
           else s)
      else let s1 = ParseExpression E s in
        if kind (Tok s1) = semi then ConsumeToken s1
        else SkipUntil E semi
               (Diag ForLoc err_matching []
                 (Diag (loc (Tok s1)) err_expected_semi_for [] s1)))"

definition ForSecondPart :: "Env \<Rightarrow> SourceLocation \<Rightarrow> PState \<Rightarrow> PState" where
  "ForSecondPart E ForLoc s =
     (let s1 = (if kind (Tok s) = semi then s else ParseExpression E s) in
      if kind (Tok s1) = semi then ConsumeToken s1
      else SkipUntil E semi
             (Diag ForLoc err_matching []
               (Diag (loc (Tok s1)) err_expected_semi_for [] s1)))"

definition ForThirdPart :: "Env \<Rightarrow> PState \<Rightarrow> PState" where
  "ForThirdPart E s = (if kind (Tok s) = r_paren then s else ParseExpression E s)"

text \<open>
  The mutually recursive routines. The first argument bounds the nesting of the calls:
  every call of a routine, and every turn of the block loop, spends one unit. \<^verbatim>\<open>ParseStatement\<close> is
  \<^verbatim>\<open>ParseStatementOrDeclaration(true)\<close>; the \<^verbatim>\<open>while\<close> loop of
  \<^verbatim>\<open>ParseCompoundStatement\<close> is \<open>CompoundLoop\<close>.
\<close>

function (sequential) ParseStatementOrDeclaration :: "nat \<Rightarrow> Env \<Rightarrow> bool \<Rightarrow> PState \<Rightarrow> PState outcome"
and ParseCompoundStatement :: "nat \<Rightarrow> Env \<Rightarrow> PState \<Rightarrow> PState outcome"
and CompoundLoop :: "nat \<Rightarrow> Env \<Rightarrow> PState \<Rightarrow> PState outcome"
and ParseIfStatement :: "nat \<Rightarrow> Env \<Rightarrow> PState \<Rightarrow> PState outcome"
and ParseSwitchStatement :: "nat \<Rightarrow> Env \<Rightarrow> PState \<Rightarrow> PState outcome"
and ParseWhileStatement :: "nat \<Rightarrow> Env \<Rightarrow> PState \<Rightarrow> PState outcome"
and ParseDoStatement :: "nat \<Rightarrow> Env \<Rightarrow> PState \<Rightarrow> PState outcome"
and ParseForStatement :: "nat \<Rightarrow> Env \<Rightarrow> PState \<Rightarrow> PState outcome"
where
  "ParseStatementOrDeclaration 0 E OnlyStatement s = OutOfFuel"
| "ParseStatementOrDeclaration (Suc n) E OnlyStatement s =
     (case kind (Tok s) of
        l_brace \<Rightarrow> ParseCompoundStatement n E s
      | semi \<Rightarrow> Returned (ConsumeToken s)
      | kw_if \<Rightarrow> ParseIfStatement n E s
      | kw_switch \<Rightarrow> ParseSwitchStatement n E s
      | kw_while \<Rightarrow> ParseWhileStatement n E s
      | kw_do \<Rightarrow>
          andThen (ParseDoStatement n E s)
            (\<lambda>s'. Returned (MustEndInSemi E ''do/while loop'' s'))
      | kw_for \<Rightarrow> ParseForStatement n E s
      | kw_goto \<Rightarrow>
          andThen (ParseGotoStatement E s)
            (\<lambda>s'. Returned (MustEndInSemi E ''goto statement'' s'))
      | kw_continue \<Rightarrow>
          Returned (MustEndInSemi E ''continue statement'' (ConsumeToken s))
      | kw_break \<Rightarrow>
          Returned (MustEndInSemi E ''break statement'' (ConsumeToken s))
      | kw_return \<Rightarrow>
          andThen (ParseReturnStatement E s)
            (\<lambda>s'. Returned (MustEndInSemi E ''return statement'' s'))
      | _ \<Rightarrow>
          Returned (SkipUntil E semi
            (Diag (loc (Tok s)) err_expected_statement_declaration [] s)))"
| "ParseCompoundStatement 0 E s = OutOfFuel"
| "ParseCompoundStatement (Suc n) E s =
     (if kind (Tok s) \<noteq> l_brace then AssertionFailed
      else andThen (CompoundLoop n E (ConsumeBrace s))
        (\<lambda>s1. if kind (Tok s1) = r_brace then Returned (ConsumeBrace s1)
               else Returned (Diag (loc (Tok s1)) err_expected_rbrace [] s1)))"
| "CompoundLoop 0 E s = OutOfFuel"
| "CompoundLoop (Suc n) E s =
     (if kind (Tok s) \<noteq> r_brace \<and> kind (Tok s) \<noteq> eof then
        andThen (ParseStatementOrDeclaration n E False s) (\<lambda>s'. CompoundLoop n E s')
      else Returned s)"
| "ParseIfStatement 0 E s = OutOfFuel"
| "ParseIfStatement (Suc n) E s =
     (if kind (Tok s) \<noteq> kw_if then AssertionFailed
      else let s1 = ConsumeToken s in
        if kind (Tok s1) \<noteq> l_paren then
          Returned (SkipUntil E semi
            (Diag (loc (Tok s1)) err_expected_lparen_after ''if'' s1))
        else
          andThen (ParseStatementOrDeclaration n E True (ParseParenExpression E s1))
            (\<lambda>s2. if kind (Tok s2) = kw_else then
                     ParseStatementOrDeclaration n E True (ConsumeToken s2)
                   else Returned s2))"
| "ParseSwitchStatement 0 E s = OutOfFuel"
| "ParseSwitchStatement (Suc n) E s =
     (if kind (Tok s) \<noteq> kw_switch then AssertionFailed
      else let s1 = ConsumeToken s in
        if kind (Tok s1) \<noteq> l_paren then
          Returned (SkipUntil E semi
            (Diag (loc (Tok s1)) err_expected_lparen_after ''switch'' s1))
        else ParseStatementOrDeclaration n E True (ParseParenExpression E s1))"
| "ParseWhileStatement 0 E s = OutOfFuel"
| "ParseWhileStatement (Suc n) E s =
     (if kind (Tok s) \<noteq> kw_while then AssertionFailed
      else let s1 = ConsumeToken s in
        if kind (Tok s1) \<noteq> l_paren then
          Returned (SkipUntil E semi
            (Diag (loc (Tok s1)) err_expected_lparen_after ''while'' s1))
        else ParseStatementOrDeclaration n E True (ParseParenExpression E s1))"
| "ParseDoStatement 0 E s = OutOfFuel"
| "ParseDoStatement (Suc n) E s =
     (if kind (Tok s) \<noteq> kw_do then AssertionFailed
      else let DoLoc = loc (Tok s) in
        andThen (ParseStatementOrDeclaration n E True (ConsumeToken s))
          (\<lambda>s1. if kind (Tok s1) \<noteq> kw_while then
                   Returned (SkipUntil E semi
                     (Diag DoLoc err_matching []
                       (Diag (loc (Tok s1)) err_expected_while [] s1)))
                 else let s2 = ConsumeToken s1 in
                   if kind (Tok s2) \<noteq> l_paren then
                     Returned (SkipUntil E semi
                       (Diag (loc (Tok s2)) err_expected_lparen_after ''do/while'' s2))
                   else Returned (ParseParenExpression E s2)))"
| "ParseForStatement 0 E s = OutOfFuel"
| "ParseForStatement (Suc n) E s =
     (if kind (Tok s) \<noteq> kw_for then AssertionFailed
      else let ForLoc = loc (Tok s); s1 = ConsumeToken s in
        if kind (Tok s1) \<noteq> l_paren then
          Returned (SkipUntil E semi
            (Diag (loc (Tok s1)) err_expected_lparen_after ''for'' s1))
        else let LParenLoc = loc (Tok s1);
                 s2 = ConsumeParen s1;
                 s3 = ForFirstPart E ForLoc s2;
                 s4 = ForSecondPart E ForLoc s3;
                 s5 = ForThirdPart E s4 in
          if kind (Tok s5) = r_paren then
            ParseStatementOrDeclaration n E True (ConsumeParen s5)
          else
            Returned (SkipUntil E r_paren
              (Diag LParenLoc err_matching []
                (Diag (loc (Tok s5)) err_expected_rparen [] s5))))"

  by pat_completeness auto

termination
  by (relation "measure (case_sum
        (case_sum (case_sum fst fst) (case_sum fst fst))
        (case_sum (case_sum fst fst) (case_sum fst fst)))") simp_all

text \<open>
  Modelled from the spec: \<^verbatim>\<open>ParseStatement\<close> is declared in \<^verbatim>\<open>Parser.h\<close>; it
  parses one statement through the dispatcher.
\<close>

definition ParseStatement :: "nat \<Rightarrow> Env \<Rightarrow> PState \<Rightarrow> PState outcome" where
  "ParseStatement n E s = ParseStatementOrDeclaration n E True s"

section \<open>Sample collaborators\<close>

text \<open>
  Modelled from the spec: \<^verbatim>\<open>SkipUntil\<close> is defined outside the file. Recovery skips
  forward to the next token of the requested kind and consumes it (``consumes up
  through the next semicolon''), or stops at the end of the input when there is none.
\<close>

definition SkipUntilSpec :: "TokenKind \<Rightarrow> PState \<Rightarrow> PState" where
  "SkipUntilSpec T s = s\<lparr>toks := tl (dropWhile (\<lambda>t. kind t \<noteq> T) (toks s))\<rparr>"

text \<open>
  Small stand-ins for the expression and declaration parsers, used to run the routines
  on concrete inputs: an expression is a single identifier or constant, a parenthesized
  expression is \<^verbatim>\<open>( expr )\<close>, a declaration starts with \<^verbatim>\<open>int\<close> and runs through its
  semicolon.
\<close>

definition sampleParseExpression :: "PState \<Rightarrow> PState" where
  "sampleParseExpression s =
     (if kind (Tok s) = identifier_tok \<or> kind (Tok s) = numeric_constant
      then ConsumeToken s else s)"

definition sampleParseParenExpression :: "PState \<Rightarrow> PState" where
  "sampleParseParenExpression s =
     (let s1 = sampleParseExpression (ConsumeParen s) in
      if kind (Tok s1) = r_paren then ConsumeParen s1 else s1)"

definition sampleEnv :: Env where
  "sampleEnv = \<lparr>C99 = True, NoExtensions = False,
     ParseExpression = sampleParseExpression,
     ParseParenExpression = sampleParseParenExpression,
     isDeclarationSpecifier = (\<lambda>s. kind (Tok s) = kw_int),
     ParseDeclaration = (\<lambda>c. SkipUntilSpec semi),
     SkipUntil = SkipUntilSpec\<rparr>"

text \<open>Tokens and states for concrete runs: \<open>tk k i\<close> is a token of kind \<open>k\<close> at location \<open>i\<close>.\<close>

definition tk :: "TokenKind \<Rightarrow> nat \<Rightarrow> Token" where
  "tk k i = \<lparr>kind = k, loc = i\<rparr>"

fun number :: "nat \<Rightarrow> TokenKind list \<Rightarrow> Token list" where
  "number i [] = []"
| "number i (k # ks) = tk k i # number (Suc i) ks"

definition input :: "TokenKind list \<Rightarrow> PState" where
  "input ks = \<lparr>toks = number 0 ks, eofLoc = length ks, diags = []\<rparr>"

section \<open>Vocabulary of the statements about termination and the block loop\<close>

text \<open>
  What is asked of the collaborators for the routines to terminate: none of them puts
  tokens back (the stream after a call is no longer than before), and recovery by
  \<^verbatim>\<open>SkipUntil\<close> moves past at least one token unless the input is exhausted.
\<close>

definition wellBehaved :: "Env \<Rightarrow> bool" where
  "wellBehaved E \<longleftrightarrow>
     (\<forall>s. length (toks (ParseExpression E s)) \<le> length (toks s)) \<and>
     (\<forall>s. length (toks (ParseParenExpression E s)) \<le> length (toks s)) \<and>
     (\<forall>c s. length (toks (ParseDeclaration E c s)) \<le> length (toks s)) \<and>
     (\<forall>T s. length (toks (SkipUntil E T s)) \<le> length (toks s)) \<and>
     (\<forall>T s. kind (Tok s) \<noteq> eof \<longrightarrow> length (toks (SkipUntil E T s)) < length (toks s))"

text \<open>
  \<open>returnsWithin run L\<close>: with enough fuel the routine returns, and at most \<open>L\<close> tokens
  are left. \<open>room s\<close> is what is left of \<open>s\<close> once its current token is gone.
\<close>

definition returnsWithin :: "(nat \<Rightarrow> PState outcome) \<Rightarrow> nat \<Rightarrow> bool" where
  "returnsWithin run L \<longleftrightarrow> (\<exists>n r. run n = Returned r \<and> length (toks r) \<le> L)"

definition room :: "PState \<Rightarrow> nat" where
  "room s = (if kind (Tok s) = eof then length (toks s) else length (toks s) - 1)"

definition dispatchReturnsBelow :: "Env \<Rightarrow> nat \<Rightarrow> bool" where
  "dispatchReturnsBelow E L \<longleftrightarrow>
     (\<forall>t b. length (toks t) < L \<longrightarrow>
        returnsWithin (\<lambda>n. ParseStatementOrDeclaration n E b t) (room t))"

text \<open>
  The loop of the compound statement in the words of its contract: the dispatcher is
  invoked again and again, each time on the state the previous call returned, until the
  current token is a closing brace or the end of the input.
\<close>

inductive RepeatedDispatch :: "Env \<Rightarrow> PState \<Rightarrow> PState \<Rightarrow> bool" for E :: Env where
  stop: "kind (Tok s) = r_brace \<or> kind (Tok s) = eof \<Longrightarrow> RepeatedDispatch E s s"
| step: "kind (Tok s) \<noteq> r_brace \<Longrightarrow> kind (Tok s) \<noteq> eof \<Longrightarrow>
         ParseStatementOrDeclaration n E False s = Returned s' \<Longrightarrow>
         RepeatedDispatch E s' r \<Longrightarrow> RepeatedDispatch E s r"

code_pred RepeatedDispatch .

section \<open>Basic facts\<close>

lemma andThen_simps [simp]:
  "andThen (Returned x) f = f x"
  "andThen AssertionFailed f = AssertionFailed"
  "andThen OutOfFuel f = OutOfFuel"
  by (simp_all add: andThen_def)

lemma Consume_simps [simp]:
  "toks (ConsumeToken s) = tl (toks s)" "diags (ConsumeToken s) = diags s"
  "eofLoc (ConsumeToken s) = eofLoc s"
  "toks (ConsumeBrace s) = tl (toks s)" "diags (ConsumeBrace s) = diags s"
  "eofLoc (ConsumeBrace s) = eofLoc s"
  "toks (ConsumeParen s) = tl (toks s)" "diags (ConsumeParen s) = diags s"
  "eofLoc (ConsumeParen s) = eofLoc s"
  by (simp_all add: ConsumeToken_def ConsumeBrace_def ConsumeParen_def)

lemma Diag_simps [simp]:
  "toks (Diag l k a s) = toks s" "eofLoc (Diag l k a s) = eofLoc s"
  "diags (Diag l k a s) = diags s @ [\<lparr>dLoc = l, dKind = k, dArg = a\<rparr>]"
  "Tok (Diag l k a s) = Tok s"
  by (simp_all add: Diag_def Tok_def split: list.split)

lemmas run_defs =
  input_def tk_def Tok_def ConsumeToken_def ConsumeBrace_def ConsumeParen_def Diag_def
  sampleEnv_def sampleParseExpression_def sampleParseParenExpression_def
  SkipUntilSpec_def MustEndInSemi_def ParseGotoStatement_def ParseReturnStatement_def
  ForFirstPart_def ForSecondPart_def ForThirdPart_def ParseStatement_def Let_def

section \<open>More fuel never changes a result\<close>

lemma andThen_Returned:
  "andThen x f = Returned r \<longleftrightarrow> (\<exists>y. x = Returned y \<and> f y = Returned r)"
  by (cases x) simp_all

lemma mono_step_Compound:
  assumes "\<And>s r. CompoundLoop n E s = Returned r \<Longrightarrow> CompoundLoop m E s = Returned r"
  shows "ParseCompoundStatement (Suc n) E s = Returned r \<Longrightarrow>
         ParseCompoundStatement (Suc m) E s = Returned r"
  using assms by (auto simp: andThen_Returned split: if_splits)

lemma mono_step_Loop:
  assumes "\<And>s r b. ParseStatementOrDeclaration n E b s = Returned r \<Longrightarrow>
             ParseStatementOrDeclaration m E b s = Returned r"
    and "\<And>s r. CompoundLoop n E s = Returned r \<Longrightarrow> CompoundLoop m E s = Returned r"
  shows "CompoundLoop (Suc n) E s = Returned r \<Longrightarrow> CompoundLoop (Suc m) E s = Returned r"
  using assms by (auto simp: andThen_Returned split: if_splits)

lemma mono_step_If:
  assumes "\<And>s r b. ParseStatementOrDeclaration n E b s = Returned r \<Longrightarrow>
             ParseStatementOrDeclaration m E b s = Returned r"
  shows "ParseIfStatement (Suc n) E s = Returned r \<Longrightarrow>
         ParseIfStatement (Suc m) E s = Returned r"
  using assms by (auto simp: andThen_Returned Let_def split: if_splits)

lemma mono_step_Switch:
  assumes "\<And>s r b. ParseStatementOrDeclaration n E b s = Returned r \<Longrightarrow>
             ParseStatementOrDeclaration m E b s = Returned r"
  shows "ParseSwitchStatement (Suc n) E s = Returned r \<Longrightarrow>
         ParseSwitchStatement (Suc m) E s = Returned r"
  using assms by (auto simp: andThen_Returned Let_def split: if_splits)

lemma mono_step_While:
  assumes "\<And>s r b. ParseStatementOrDeclaration n E b s = Returned r \<Longrightarrow>
             ParseStatementOrDeclaration m E b s = Returned r"
  shows "ParseWhileStatement (Suc n) E s = Returned r \<Longrightarrow>
         ParseWhileStatement (Suc m) E s = Returned r"
  using assms by (auto simp: andThen_Returned Let_def split: if_splits)

lemma mono_step_Do:
  assumes "\<And>s r b. ParseStatementOrDeclaration n E b s = Returned r \<Longrightarrow>
             ParseStatementOrDeclaration m E b s = Returned r"
  shows "ParseDoStatement (Suc n) E s = Returned r \<Longrightarrow>
         ParseDoStatement (Suc m) E s = Returned r"
  using assms by (auto simp: andThen_Returned Let_def split: if_splits)

lemma mono_step_For:
  assumes "\<And>s r b. ParseStatementOrDeclaration n E b s = Returned r \<Longrightarrow>
             ParseStatementOrDeclaration m E b s = Returned r"
  shows "ParseForStatement (Suc n) E s = Returned r \<Longrightarrow>
         ParseForStatement (Suc m) E s = Returned r"
  using assms by (auto simp: andThen_Returned Let_def split: if_splits)

lemma mono_step_Dispatch:
  assumes "\<And>s r. ParseCompoundStatement n E s = Returned r \<Longrightarrow>
             ParseCompoundStatement m E s = Returned r"
    and "\<And>s r. ParseIfStatement n E s = Returned r \<Longrightarrow> ParseIfStatement m E s = Returned r"
    and "\<And>s r. ParseSwitchStatement n E s = Returned r \<Longrightarrow>
             ParseSwitchStatement m E s = Returned r"
    and "\<And>s r. ParseWhileStatement n E s = Returned r \<Longrightarrow>
             ParseWhileStatement m E s = Returned r"
    and "\<And>s r. ParseDoStatement n E s = Returned r \<Longrightarrow> ParseDoStatement m E s = Returned r"
    and "\<And>s r. ParseForStatement n E s = Returned r \<Longrightarrow>
             ParseForStatement m E s = Returned r"
  shows "ParseStatementOrDeclaration (Suc n) E b s = Returned r \<Longrightarrow>
         ParseStatementOrDeclaration (Suc m) E b s = Returned r"
  using assms by (cases "kind (Tok s)") (auto simp: andThen_Returned)

lemma fuel_mono_all:
  "\<forall>m E s r. n \<le> m \<longrightarrow>
     (\<forall>b. ParseStatementOrDeclaration n E b s = Returned r \<longrightarrow>
          ParseStatementOrDeclaration m E b s = Returned r) \<and>
     (ParseCompoundStatement n E s = Returned r \<longrightarrow>
          ParseCompoundStatement m E s = Returned r) \<and>
     (CompoundLoop n E s = Returned r \<longrightarrow> CompoundLoop m E s = Returned r) \<and>
     (ParseIfStatement n E s = Returned r \<longrightarrow> ParseIfStatement m E s = Returned r) \<and>
     (ParseSwitchStatement n E s = Returned r \<longrightarrow> ParseSwitchStatement m E s = Returned r) \<and>
     (ParseWhileStatement n E s = Returned r \<longrightarrow> ParseWhileStatement m E s = Returned r) \<and>
     (ParseDoStatement n E s = Returned r \<longrightarrow> ParseDoStatement m E s = Returned r) \<and>
     (ParseForStatement n E s = Returned r \<longrightarrow> ParseForStatement m E s = Returned r)"
proof (induction n)
  case 0
  show ?case by simp
next
  case (Suc n)
  show ?case
  proof (intro allI impI)
    fix m E s r
    assume "Suc n \<le> m"
    then obtain m' where m: "m = Suc m'" and le: "n \<le> m'"
      by (cases m) auto
    note IH = Suc.IH [rule_format, OF le]
    show "(\<forall>b. ParseStatementOrDeclaration (Suc n) E b s = Returned r \<longrightarrow>
          ParseStatementOrDeclaration m E b s = Returned r) \<and>
     (ParseCompoundStatement (Suc n) E s = Returned r \<longrightarrow>
          ParseCompoundStatement m E s = Returned r) \<and>
     (CompoundLoop (Suc n) E s = Returned r \<longrightarrow> CompoundLoop m E s = Returned r) \<and>
     (ParseIfStatement (Suc n) E s = Returned r \<longrightarrow> ParseIfStatement m E s = Returned r) \<and>
     (ParseSwitchStatement (Suc n) E s = Returned r \<longrightarrow> ParseSwitchStatement m E s = Returned r) \<and>
     (ParseWhileStatement (Suc n) E s = Returned r \<longrightarrow> ParseWhileStatement m E s = Returned r) \<and>
     (ParseDoStatement (Suc n) E s = Returned r \<longrightarrow> ParseDoStatement m E s = Returned r) \<and>
     (ParseForStatement (Suc n) E s = Returned r \<longrightarrow> ParseForStatement m E s = Returned r)"
      unfolding m
      by (intro conjI allI impI mono_step_Dispatch [where n = n and m = m']
          mono_step_Compound [where n = n and m = m'] mono_step_Loop [where n = n and m = m']
          mono_step_If [where n = n and m = m'] mono_step_Switch [where n = n and m = m']
          mono_step_While [where n = n and m = m'] mono_step_Do [where n = n and m = m']
          mono_step_For [where n = n and m = m']; (assumption | simp add: IH))
  qed
qed

lemmas dispatch_mono = fuel_mono_all [rule_format, THEN conjunct1, rule_format]

lemmas loop_mono =
  fuel_mono_all [rule_format, THEN conjunct2, THEN conjunct2, THEN conjunct1, rule_format]

section \<open>Every routine returns\<close>

text \<open>
  By induction on the number of tokens left: every recursive call of the dispatcher is
  made after at least one token has been consumed, and the dispatcher itself consumes
  at least one token unless the input is exhausted, so the block loop cannot spin.
\<close>

lemma not_eof_nonempty: "kind (Tok s) \<noteq> eof \<Longrightarrow> toks s \<noteq> []"
  by (auto simp: Tok_def)

lemma room_less: "kind (Tok s) \<noteq> eof \<Longrightarrow> room s < length (toks s)"
  using not_eof_nonempty [of s] by (simp add: room_def)

lemma room_le: "room s \<le> length (toks s)"
  by (simp add: room_def)

lemma wb_expr: "wellBehaved E \<Longrightarrow> length (toks (ParseExpression E s)) \<le> length (toks s)"
  and wb_paren: "wellBehaved E \<Longrightarrow> length (toks (ParseParenExpression E s)) \<le> length (toks s)"
  and wb_decl: "wellBehaved E \<Longrightarrow> length (toks (ParseDeclaration E c s)) \<le> length (toks s)"
  and wb_skip: "wellBehaved E \<Longrightarrow> length (toks (SkipUntil E T s)) \<le> length (toks s)"
  and wb_skip_less: "wellBehaved E \<Longrightarrow> kind (Tok s) \<noteq> eof \<Longrightarrow>
        length (toks (SkipUntil E T s)) < length (toks s)"
  by (simp_all add: wellBehaved_def)

lemma MustEndInSemi_le:
  "wellBehaved E \<Longrightarrow> length (toks (MustEndInSemi E a s)) \<le> length (toks s)"
  using wb_skip [of E semi "Diag (loc (Tok s)) err_expected_semi_after a s"]
  by (simp add: MustEndInSemi_def)

lemma ForFirstPart_le:
  assumes "wellBehaved E" shows "length (toks (ForFirstPart E l s)) \<le> length (toks s)"
proof -
  let ?e = "ParseExpression E s"
  have "length (toks (SkipUntil E semi (Diag l err_matching []
          (Diag (loc (Tok ?e)) err_expected_semi_for [] ?e)))) \<le> length (toks s)"
    using wb_skip [OF assms, of semi "Diag l err_matching []
          (Diag (loc (Tok ?e)) err_expected_semi_for [] ?e)"] wb_expr [OF assms, of s]
    by simp
  moreover have "length (tl (toks ?e)) \<le> length (toks s)"
    using wb_expr [OF assms, of s] by simp
  moreover have "length (toks (ParseDeclaration E ForContext s)) \<le> length (toks s)"
    by (rule wb_decl [OF assms])
  moreover have "length (toks (ParseDeclaration E ForContext
       (Diag (loc (Tok s)) ext_c99_variable_decl_in_for_loop [] s))) \<le> length (toks s)"
    using wb_decl [OF assms, of ForContext
        "Diag (loc (Tok s)) ext_c99_variable_decl_in_for_loop [] s"] by simp
  ultimately show ?thesis
    by (simp add: ForFirstPart_def Let_def)
qed

lemma ForSecondPart_le:
  assumes "wellBehaved E" shows "length (toks (ForSecondPart E l s)) \<le> length (toks s)"
proof -
  have skip: "length (toks (SkipUntil E semi (Diag l err_matching []
          (Diag (loc (Tok e)) err_expected_semi_for [] e)))) \<le> length (toks e)" for e
    using wb_skip [OF assms, of semi "Diag l err_matching []
          (Diag (loc (Tok e)) err_expected_semi_for [] e)"]
    by simp
  show ?thesis
    using skip [of s] skip [of "ParseExpression E s"] wb_expr [OF assms, of s]
    by (auto simp: ForSecondPart_def Let_def intro: le_trans)
qed

lemma ForThirdPart_le:
  "wellBehaved E \<Longrightarrow> length (toks (ForThirdPart E s)) \<le> length (toks s)"
  by (simp add: ForThirdPart_def wb_expr)

lemma below_dispatch:
  assumes "dispatchReturnsBelow E L" and "length (toks t) < L"
  obtains n r where "ParseStatementOrDeclaration n E b t = Returned r"
    and "length (toks r) \<le> room t"
  using assms unfolding dispatchReturnsBelow_def returnsWithin_def by blast

lemma consumed_room: "kind (Tok s) \<noteq> eof \<Longrightarrow> length (tl (toks s)) = room s"
  by (simp add: room_def)

lemma loop_returns:
  assumes wb: "wellBehaved E" and below: "dispatchReturnsBelow E L"
  shows "length (toks t) < L \<Longrightarrow> returnsWithin (\<lambda>n. CompoundLoop n E t) (length (toks t))"
proof (induction "length (toks t)" arbitrary: t rule: less_induct)
  case less
  show ?case
  proof (cases "kind (Tok t) \<noteq> r_brace \<and> kind (Tok t) \<noteq> eof")
    case False
    then have "CompoundLoop (Suc 0) E t = Returned t" by auto
    then show ?thesis unfolding returnsWithin_def by blast
  next
    case True
    obtain n1 t' where d: "ParseStatementOrDeclaration n1 E False t = Returned t'"
      and l1: "length (toks t') \<le> room t"
      using below_dispatch [OF below less.prems] by blast
    have lt: "length (toks t') < length (toks t)"
      using l1 room_less [of t] True by simp
    then have "returnsWithin (\<lambda>n. CompoundLoop n E t') (length (toks t'))"
      using less.hyps [of t'] less.prems by simp
    then obtain n2 r where c: "CompoundLoop n2 E t' = Returned r"
      and l2: "length (toks r) \<le> length (toks t')"
      by (auto simp: returnsWithin_def)
    have "ParseStatementOrDeclaration (max n1 n2) E False t = Returned t'"
      using dispatch_mono [OF _ d, of "max n1 n2"] by simp
    moreover have "CompoundLoop (max n1 n2) E t' = Returned r"
      using loop_mono [OF _ c, of "max n1 n2"] by simp
    ultimately have "CompoundLoop (Suc (max n1 n2)) E t = Returned r"
      using True by simp
    moreover have "length (toks r) \<le> length (toks t)"
      using l2 lt by simp
    ultimately show ?thesis unfolding returnsWithin_def by blast
  qed
qed

lemma compound_returns:
  assumes wb: "wellBehaved E" and below: "dispatchReturnsBelow E (length (toks s))"
    and k: "kind (Tok s) = l_brace"
  shows "returnsWithin (\<lambda>n. ParseCompoundStatement n E s) (room s)"
proof -
  have ne: "kind (Tok s) \<noteq> eof" using k by simp
  have "length (toks (ConsumeBrace s)) < length (toks s)"
    using room_less [OF ne] consumed_room [OF ne] by simp
  from loop_returns [OF wb below this]
  obtain n r where c: "CompoundLoop n E (ConsumeBrace s) = Returned r"
    and l: "length (toks r) \<le> room s"
    using consumed_room [OF ne] by (auto simp: returnsWithin_def)
  show ?thesis
  proof (cases "kind (Tok r) = r_brace")
    case True
    then have "ParseCompoundStatement (Suc n) E s = Returned (ConsumeBrace r)"
      using k c by simp
    moreover have "length (toks (ConsumeBrace r)) \<le> room s"
      using l by simp
    ultimately show ?thesis unfolding returnsWithin_def by blast
  next
    case False
    then have "ParseCompoundStatement (Suc n) E s =
        Returned (Diag (loc (Tok r)) err_expected_rbrace [] r)"
      using k c by simp
    moreover have "length (toks (Diag (loc (Tok r)) err_expected_rbrace [] r)) \<le> room s"
      using l by simp
    ultimately show ?thesis unfolding returnsWithin_def by blast
  qed
qed

lemma if_returns:
  assumes wb: "wellBehaved E" and below: "dispatchReturnsBelow E (length (toks s))"
    and k: "kind (Tok s) = kw_if"
  shows "returnsWithin (\<lambda>n. ParseIfStatement n E s) (room s)"
proof -
  have ne: "kind (Tok s) \<noteq> eof" using k by simp
  let ?s1 = "ConsumeToken s"
  have l1: "length (toks ?s1) = room s" using consumed_room [OF ne] by simp
  show ?thesis
  proof (cases "kind (Tok ?s1) = l_paren")
    case False
    let ?r = "SkipUntil E semi (Diag (loc (Tok ?s1)) err_expected_lparen_after ''if'' ?s1)"
    have "ParseIfStatement (Suc 0) E s = Returned ?r"
      using k False by (simp add: Let_def)
    moreover have "length (toks ?r) \<le> room s"
      using wb_skip [OF wb, of semi "Diag (loc (Tok ?s1)) err_expected_lparen_after ''if'' ?s1"]
        l1 by simp
    ultimately show ?thesis unfolding returnsWithin_def by blast
  next
    case True
    let ?s2 = "ParseParenExpression E ?s1"
    have l2: "length (toks ?s2) \<le> room s"
      using wb_paren [OF wb, of ?s1] l1 by simp
    then have "length (toks ?s2) < length (toks s)"
      using room_less [OF ne] by simp
    from below_dispatch [OF below this]
    obtain n1 s3 where d1: "ParseStatementOrDeclaration n1 E True ?s2 = Returned s3"
      and l3: "length (toks s3) \<le> room ?s2" by blast
    have l3': "length (toks s3) \<le> room s"
      using l3 room_le [of ?s2] l2 by simp
    show ?thesis
    proof (cases "kind (Tok s3) = kw_else")
      case False
      have "ParseIfStatement (Suc n1) E s = Returned s3"
        using k True d1 False by (simp add: Let_def)
      then show ?thesis using l3' unfolding returnsWithin_def by blast
    next
      case else: True
      let ?s4 = "ConsumeToken s3"
      have l4: "length (toks ?s4) \<le> room s" using l3' by simp
      then have "length (toks ?s4) < length (toks s)"
        using room_less [OF ne] by simp
      from below_dispatch [OF below this]
      obtain n2 r where d2: "ParseStatementOrDeclaration n2 E True ?s4 = Returned r"
        and l5: "length (toks r) \<le> room ?s4" by blast
      have "ParseStatementOrDeclaration (max n1 n2) E True ?s2 = Returned s3"
        using dispatch_mono [OF _ d1, of "max n1 n2"] by simp
      moreover have "ParseStatementOrDeclaration (max n1 n2) E True ?s4 = Returned r"
        using dispatch_mono [OF _ d2, of "max n1 n2"] by simp
      ultimately have "ParseIfStatement (Suc (max n1 n2)) E s = Returned r"
        using k True else by (simp add: Let_def)
      moreover have "length (toks r) \<le> room s"
        using l5 room_le [of ?s4] l4 by simp
      ultimately show ?thesis unfolding returnsWithin_def by blast
    qed
  qed
qed

lemma switch_returns:
  assumes wb: "wellBehaved E" and below: "dispatchReturnsBelow E (length (toks s))"
    and k: "kind (Tok s) = kw_switch"
  shows "returnsWithin (\<lambda>n. ParseSwitchStatement n E s) (room s)"
proof -
  have ne: "kind (Tok s) \<noteq> eof" using k by simp
  let ?s1 = "ConsumeToken s"
  have l1: "length (toks ?s1) = room s" using consumed_room [OF ne] by simp
  show ?thesis
  proof (cases "kind (Tok ?s1) = l_paren")
    case False
    let ?r = "SkipUntil E semi (Diag (loc (Tok ?s1)) err_expected_lparen_after ''switch'' ?s1)"
    have "ParseSwitchStatement (Suc 0) E s = Returned ?r"
      using k False by (simp add: Let_def)
    moreover have "length (toks ?r) \<le> room s"
      using wb_skip [OF wb, of semi
          "Diag (loc (Tok ?s1)) err_expected_lparen_after ''switch'' ?s1"] l1 by simp
    ultimately show ?thesis unfolding returnsWithin_def by blast
  next
    case True
    let ?s2 = "ParseParenExpression E ?s1"
    have l2: "length (toks ?s2) \<le> room s"
      using wb_paren [OF wb, of ?s1] l1 by simp
    then have "length (toks ?s2) < length (toks s)"
      using room_less [OF ne] by simp
    from below_dispatch [OF below this]
    obtain n1 s3 where d1: "ParseStatementOrDeclaration n1 E True ?s2 = Returned s3"
      and l3: "length (toks s3) \<le> room ?s2" by blast
    have "ParseSwitchStatement (Suc n1) E s = Returned s3"
      using k True d1 by (simp add: Let_def)
    moreover have "length (toks s3) \<le> room s"
      using l3 room_le [of ?s2] l2 by simp
    ultimately show ?thesis unfolding returnsWithin_def by blast
  qed
qed

lemma while_returns:
  assumes wb: "wellBehaved E" and below: "dispatchReturnsBelow E (length (toks s))"
    and k: "kind (Tok s) = kw_while"
  shows "returnsWithin (\<lambda>n. ParseWhileStatement n E s) (room s)"
proof -
  have ne: "kind (Tok s) \<noteq> eof" using k by simp
  let ?s1 = "ConsumeToken s"
  have l1: "length (toks ?s1) = room s" using consumed_room [OF ne] by simp
  show ?thesis
  proof (cases "kind (Tok ?s1) = l_paren")
    case False
    let ?r = "SkipUntil E semi (Diag (loc (Tok ?s1)) err_expected_lparen_after ''while'' ?s1)"
    have "ParseWhileStatement (Suc 0) E s = Returned ?r"
      using k False by (simp add: Let_def)
    moreover have "length (toks ?r) \<le> room s"
      using wb_skip [OF wb, of semi
          "Diag (loc (Tok ?s1)) err_expected_lparen_after ''while'' ?s1"] l1 by simp
    ultimately show ?thesis unfolding returnsWithin_def by blast
  next
    case True
    let ?s2 = "ParseParenExpression E ?s1"
    have l2: "length (toks ?s2) \<le> room s"
      using wb_paren [OF wb, of ?s1] l1 by simp
    then have "length (toks ?s2) < length (toks s)"
      using room_less [OF ne] by simp
    from below_dispatch [OF below this]
    obtain n1 s3 where d1: "ParseStatementOrDeclaration n1 E True ?s2 = Returned s3"
      and l3: "length (toks s3) \<le> room ?s2" by blast
    have "ParseWhileStatement (Suc n1) E s = Returned s3"
      using k True d1 by (simp add: Let_def)
    moreover have "length (toks s3) \<le> room s"
      using l3 room_le [of ?s2] l2 by simp
    ultimately show ?thesis unfolding returnsWithin_def by blast
  qed
qed

lemma do_returns:
  assumes wb: "wellBehaved E" and below: "dispatchReturnsBelow E (length (toks s))"
    and k: "kind (Tok s) = kw_do"
  shows "returnsWithin (\<lambda>n. ParseDoStatement n E s) (room s)"
proof -
  have ne: "kind (Tok s) \<noteq> eof" using k by simp
  let ?s0 = "ConsumeToken s"
  have l0: "length (toks ?s0) = room s" using consumed_room [OF ne] by simp
  then have "length (toks ?s0) < length (toks s)"
    using room_less [OF ne] by simp
  from below_dispatch [OF below this]
  obtain n1 s1 where d1: "ParseStatementOrDeclaration n1 E True ?s0 = Returned s1"
    and "length (toks s1) \<le> room ?s0" by blast
  then have l1: "length (toks s1) \<le> room s"
    using room_le [of ?s0] l0 by simp
  let ?s2 = "ConsumeToken s1"
  let ?a = "SkipUntil E semi (Diag (loc (Tok s)) err_matching []
              (Diag (loc (Tok s1)) err_expected_while [] s1))"
  let ?b = "SkipUntil E semi (Diag (loc (Tok ?s2)) err_expected_lparen_after ''do/while'' ?s2)"
  let ?c = "ParseParenExpression E ?s2"
  let ?r = "if kind (Tok s1) \<noteq> kw_while then ?a
            else if kind (Tok ?s2) \<noteq> l_paren then ?b else ?c"
  have res: "ParseDoStatement (Suc n1) E s = Returned ?r"
    using k d1 by (simp add: Let_def)
  have a: "length (toks ?a) \<le> room s"
    using wb_skip [OF wb, of semi "Diag (loc (Tok s)) err_matching []
              (Diag (loc (Tok s1)) err_expected_while [] s1)"] l1 by simp
  have b: "length (toks ?b) \<le> room s"
    using wb_skip [OF wb, of semi
        "Diag (loc (Tok ?s2)) err_expected_lparen_after ''do/while'' ?s2"] l1 by simp
  have c: "length (toks ?c) \<le> room s"
    using wb_paren [OF wb, of ?s2] l1 by simp
  have "length (toks ?r) \<le> room s"
    using a b c by simp
  with res show ?thesis unfolding returnsWithin_def by blast
qed

lemma for_returns:
  assumes wb: "wellBehaved E" and below: "dispatchReturnsBelow E (length (toks s))"
    and k: "kind (Tok s) = kw_for"
  shows "returnsWithin (\<lambda>n. ParseForStatement n E s) (room s)"
proof -
  have ne: "kind (Tok s) \<noteq> eof" using k by simp
  let ?s1 = "ConsumeToken s"
  have l1: "length (toks ?s1) = room s" using consumed_room [OF ne] by simp
  show ?thesis
  proof (cases "kind (Tok ?s1) = l_paren")
    case False
    let ?r = "SkipUntil E semi (Diag (loc (Tok ?s1)) err_expected_lparen_after ''for'' ?s1)"
    have "ParseForStatement (Suc 0) E s = Returned ?r"
      using k False by (simp add: Let_def)
    moreover have "length (toks ?r) \<le> room s"
      using wb_skip [OF wb, of semi
          "Diag (loc (Tok ?s1)) err_expected_lparen_after ''for'' ?s1"] l1 by simp
    ultimately show ?thesis unfolding returnsWithin_def by blast
  next
    case True
    let ?s5 = "ForThirdPart E (ForSecondPart E (loc (Tok s))
                 (ForFirstPart E (loc (Tok s)) (ConsumeParen ?s1)))"
    have "length (toks ?s5) \<le> length (toks (ConsumeParen ?s1))"
      using ForThirdPart_le [OF wb] ForSecondPart_le [OF wb] ForFirstPart_le [OF wb]
      by (blast intro: le_trans)
    then have l5: "length (toks ?s5) \<le> room s"
      using l1 by simp
    show ?thesis
    proof (cases "kind (Tok ?s5) = r_paren")
      case False
      let ?r = "SkipUntil E r_paren (Diag (loc (Tok ?s1)) err_matching []
                  (Diag (loc (Tok ?s5)) err_expected_rparen [] ?s5))"
      have "ParseForStatement (Suc 0) E s = Returned ?r"
        using k True False by (simp add: Let_def)
      moreover have "length (toks ?r) \<le> room s"
        using wb_skip [OF wb, of r_paren "Diag (loc (Tok ?s1)) err_matching []
                  (Diag (loc (Tok ?s5)) err_expected_rparen [] ?s5)"] l5 by simp
      ultimately show ?thesis unfolding returnsWithin_def by blast
    next
      case rp: True
      let ?s6 = "ConsumeParen ?s5"
      have l6: "length (toks ?s6) \<le> room s" using l5 by simp
      then have "length (toks ?s6) < length (toks s)"
        using room_less [OF ne] by simp
      from below_dispatch [OF below this]
      obtain n1 r where d1: "ParseStatementOrDeclaration n1 E True ?s6 = Returned r"
        and l7: "length (toks r) \<le> room ?s6" by blast
      have "ParseForStatement (Suc n1) E s = Returned r"
        using k True rp d1 by (simp add: Let_def)
      moreover have "length (toks r) \<le> room s"
        using l7 room_le [of ?s6] l6 by simp
      ultimately show ?thesis unfolding returnsWithin_def by blast
    qed
  qed
qed

lemma goto_returns:
  assumes wb: "wellBehaved E" and k: "kind (Tok s) = kw_goto"
  shows "\<exists>r. ParseGotoStatement E s = Returned r \<and> length (toks r) \<le> room s"
proof -
  have ne: "kind (Tok s) \<noteq> eof" using k by simp
  let ?s1 = "ConsumeToken s"
  have l1: "length (toks ?s1) = room s" using consumed_room [OF ne] by simp
  have "length (toks (ParseExpression E
          (ConsumeToken (Diag (loc (Tok ?s1)) ext_gnu_indirect_goto [] ?s1)))) \<le> room s"
    using wb_expr [OF wb, of "ConsumeToken (Diag (loc (Tok ?s1)) ext_gnu_indirect_goto [] ?s1)"]
      l1 by simp
  moreover have "length (toks (ConsumeToken ?s1)) \<le> room s"
    using l1 by simp
  ultimately show ?thesis
    using k l1 by (simp add: ParseGotoStatement_def Let_def)
qed

lemma return_returns:
  assumes wb: "wellBehaved E" and k: "kind (Tok s) = kw_return"
  shows "\<exists>r. ParseReturnStatement E s = Returned r \<and> length (toks r) \<le> room s"
proof -
  have ne: "kind (Tok s) \<noteq> eof" using k by simp
  let ?s1 = "ConsumeToken s"
  have l1: "length (toks ?s1) = room s" using consumed_room [OF ne] by simp
  have "length (toks (ParseExpression E ?s1)) \<le> room s"
    using wb_expr [OF wb, of ?s1] l1 by simp
  then show ?thesis
    using k l1 by (simp add: ParseReturnStatement_def Let_def)
qed

lemma dispatch_default:
  assumes "kind (Tok s) \<notin> {l_brace, semi, kw_if, kw_switch, kw_while, kw_do, kw_for,
             kw_goto, kw_continue, kw_break, kw_return}"
  shows "ParseStatementOrDeclaration (Suc n) E b s =
         Returned (SkipUntil E semi
           (Diag (loc (Tok s)) err_expected_statement_declaration [] s))"
  using assms by (cases "kind (Tok s)") simp_all

lemma dispatch_step:
  assumes wb: "wellBehaved E" and below: "dispatchReturnsBelow E (length (toks s))"
  shows "returnsWithin (\<lambda>n. ParseStatementOrDeclaration n E b s) (room s)"
proof -
  consider (c_brace) "kind (Tok s) = l_brace" | (c_semi) "kind (Tok s) = semi"
    | (c_kif) "kind (Tok s) = kw_if" | (c_switch) "kind (Tok s) = kw_switch"
    | (c_while) "kind (Tok s) = kw_while" | (c_do) "kind (Tok s) = kw_do"
    | (c_for) "kind (Tok s) = kw_for" | (c_goto) "kind (Tok s) = kw_goto"
    | (c_continue) "kind (Tok s) = kw_continue" | (c_break) "kind (Tok s) = kw_break"
    | (c_return) "kind (Tok s) = kw_return"
    | (c_other) "kind (Tok s) \<notin> {l_brace, semi, kw_if, kw_switch, kw_while, kw_do, kw_for,
             kw_goto, kw_continue, kw_break, kw_return}"
    by blast
  then show ?thesis
  proof cases
    case c_brace
    from compound_returns [OF wb below c_brace]
    obtain n r where "ParseCompoundStatement n E s = Returned r" "length (toks r) \<le> room s"
      unfolding returnsWithin_def by blast
    then have "ParseStatementOrDeclaration (Suc n) E b s = Returned r \<and>
        length (toks r) \<le> room s"
      using c_brace by simp
    then show ?thesis unfolding returnsWithin_def by blast
  next
    case c_semi
    then have "ParseStatementOrDeclaration (Suc 0) E b s = Returned (ConsumeToken s) \<and>
        length (toks (ConsumeToken s)) \<le> room s"
      using consumed_room [of s] by simp
    then show ?thesis unfolding returnsWithin_def by blast
  next
    case c_kif
    from if_returns [OF wb below c_kif]
    obtain n r where "ParseIfStatement n E s = Returned r" "length (toks r) \<le> room s"
      unfolding returnsWithin_def by blast
    then have "ParseStatementOrDeclaration (Suc n) E b s = Returned r \<and>
        length (toks r) \<le> room s"
      using c_kif by simp
    then show ?thesis unfolding returnsWithin_def by blast
  next
    case c_switch
    from switch_returns [OF wb below c_switch]
    obtain n r where "ParseSwitchStatement n E s = Returned r" "length (toks r) \<le> room s"
      unfolding returnsWithin_def by blast
    then have "ParseStatementOrDeclaration (Suc n) E b s = Returned r \<and>
        length (toks r) \<le> room s"
      using c_switch by simp
    then show ?thesis unfolding returnsWithin_def by blast
  next
    case c_while
    from while_returns [OF wb below c_while]
    obtain n r where "ParseWhileStatement n E s = Returned r" "length (toks r) \<le> room s"
      unfolding returnsWithin_def by blast
    then have "ParseStatementOrDeclaration (Suc n) E b s = Returned r \<and>
        length (toks r) \<le> room s"
      using c_while by simp
    then show ?thesis unfolding returnsWithin_def by blast
  next
    case c_do
    from do_returns [OF wb below c_do]
    obtain n r where "ParseDoStatement n E s = Returned r" "length (toks r) \<le> room s"
      unfolding returnsWithin_def by blast
    then have "ParseStatementOrDeclaration (Suc n) E b s =
          Returned (MustEndInSemi E ''do/while loop'' r) \<and>
        length (toks (MustEndInSemi E ''do/while loop'' r)) \<le> room s"
      using c_do MustEndInSemi_le [OF wb, of "''do/while loop''" r] by simp
    then show ?thesis unfolding returnsWithin_def by blast
  next
    case c_for
    from for_returns [OF wb below c_for]
    obtain n r where "ParseForStatement n E s = Returned r" "length (toks r) \<le> room s"
      unfolding returnsWithin_def by blast
    then have "ParseStatementOrDeclaration (Suc n) E b s = Returned r \<and>
        length (toks r) \<le> room s"
      using c_for by simp
    then show ?thesis unfolding returnsWithin_def by blast
  next
    case c_goto
    from goto_returns [OF wb c_goto]
    obtain r where "ParseGotoStatement E s = Returned r" "length (toks r) \<le> room s"
      by blast
    then have "ParseStatementOrDeclaration (Suc 0) E b s =
          Returned (MustEndInSemi E ''goto statement'' r) \<and>
        length (toks (MustEndInSemi E ''goto statement'' r)) \<le> room s"
      using c_goto MustEndInSemi_le [OF wb, of "''goto statement''" r] by simp
    then show ?thesis unfolding returnsWithin_def by blast
  next
    case c_continue
    then have "ParseStatementOrDeclaration (Suc 0) E b s =
          Returned (MustEndInSemi E ''continue statement'' (ConsumeToken s)) \<and>
        length (toks (MustEndInSemi E ''continue statement'' (ConsumeToken s))) \<le> room s"
      using MustEndInSemi_le [OF wb, of "''continue statement''" "ConsumeToken s"]
        consumed_room [of s] by simp
    then show ?thesis unfolding returnsWithin_def by blast
  next
    case c_break
    then have "ParseStatementOrDeclaration (Suc 0) E b s =
          Returned (MustEndInSemi E ''break statement'' (ConsumeToken s)) \<and>
        length (toks (MustEndInSemi E ''break statement'' (ConsumeToken s))) \<le> room s"
      using MustEndInSemi_le [OF wb, of "''break statement''" "ConsumeToken s"]
        consumed_room [of s] by simp
    then show ?thesis unfolding returnsWithin_def by blast
  next
    case c_return
    from return_returns [OF wb c_return]
    obtain r where "ParseReturnStatement E s = Returned r" "length (toks r) \<le> room s"
      by blast
    then have "ParseStatementOrDeclaration (Suc 0) E b s =
          Returned (MustEndInSemi E ''return statement'' r) \<and>
        length (toks (MustEndInSemi E ''return statement'' r)) \<le> room s"
      using c_return MustEndInSemi_le [OF wb, of "''return statement''" r] by simp
    then show ?thesis unfolding returnsWithin_def by blast
  next
    case c_other
    let ?d = "Diag (loc (Tok s)) err_expected_statement_declaration [] s"
    have "length (toks (SkipUntil E semi ?d)) \<le> room s"
    proof (cases "kind (Tok s) = eof")
      case True
      then show ?thesis using wb_skip [OF wb, of semi ?d] by (simp add: room_def)
    next
      case False
      then show ?thesis using wb_skip_less [OF wb, of ?d semi] by (simp add: room_def)
    qed
    with dispatch_default [OF c_other, of 0 E b]
    show ?thesis unfolding returnsWithin_def by blast
  qed
qed

lemma dispatch_returns:
  assumes wb: "wellBehaved E"
  shows "returnsWithin (\<lambda>n. ParseStatementOrDeclaration n E b s) (room s)"
proof (induction "length (toks s)" arbitrary: s b rule: less_induct)
  case less
  have "dispatchReturnsBelow E (length (toks s))"
    unfolding dispatchReturnsBelow_def using less.hyps by blast
  then show ?case by (rule dispatch_step [OF wb])
qed

lemma dispatch_below: "wellBehaved E \<Longrightarrow> dispatchReturnsBelow E L"
  unfolding dispatchReturnsBelow_def using dispatch_returns by blast

lemmas compound_mono =
  fuel_mono_all [rule_format, THEN conjunct2, THEN conjunct1, rule_format]

lemmas if_mono =
  fuel_mono_all [rule_format, THEN conjunct2, THEN conjunct2, THEN conjunct2,
    THEN conjunct1, rule_format]

lemmas switch_mono =
  fuel_mono_all [rule_format, THEN conjunct2, THEN conjunct2, THEN conjunct2,
    THEN conjunct2, THEN conjunct1, rule_format]

lemmas while_mono =
  fuel_mono_all [rule_format, THEN conjunct2, THEN conjunct2, THEN conjunct2,
    THEN conjunct2, THEN conjunct2, THEN conjunct1, rule_format]

lemmas do_mono =
  fuel_mono_all [rule_format, THEN conjunct2, THEN conjunct2, THEN conjunct2,
    THEN conjunct2, THEN conjunct2, THEN conjunct2, THEN conjunct1, rule_format]

lemmas for_mono =
  fuel_mono_all [rule_format, THEN conjunct2, THEN conjunct2, THEN conjunct2,
    THEN conjunct2, THEN conjunct2, THEN conjunct2, THEN conjunct2, rule_format]

lemma returns_stably:
  assumes "returnsWithin run L"
    and "\<And>n m r. n \<le> m \<Longrightarrow> run n = Returned r \<Longrightarrow> run m = Returned r"
  shows "\<exists>n r. \<forall>m\<ge>n. run m = Returned r"
  using assms unfolding returnsWithin_def by blast

section \<open>No assertion fails\<close>

text \<open>
  The dispatcher enters a statement routine only under the case label of the token the
  routine asserts, so no \<^verbatim>\<open>assert\<close> fails in a parse that starts at the dispatcher,
  whatever the collaborators do and whatever the bound on the recursion.
\<close>

lemma andThen_AssertionFailed:
  "andThen x f = AssertionFailed \<longleftrightarrow>
     x = AssertionFailed \<or> (\<exists>y. x = Returned y \<and> f y = AssertionFailed)"
  by (cases x) simp_all

lemma never_asserts_all:
  "\<forall>E s. (\<forall>b. ParseStatementOrDeclaration n E b s \<noteq> AssertionFailed) \<and>
     (kind (Tok s) = l_brace \<longrightarrow> ParseCompoundStatement n E s \<noteq> AssertionFailed) \<and>
     CompoundLoop n E s \<noteq> AssertionFailed \<and>
     (kind (Tok s) = kw_if \<longrightarrow> ParseIfStatement n E s \<noteq> AssertionFailed) \<and>
     (kind (Tok s) = kw_switch \<longrightarrow> ParseSwitchStatement n E s \<noteq> AssertionFailed) \<and>
     (kind (Tok s) = kw_while \<longrightarrow> ParseWhileStatement n E s \<noteq> AssertionFailed) \<and>
     (kind (Tok s) = kw_do \<longrightarrow> ParseDoStatement n E s \<noteq> AssertionFailed) \<and>
     (kind (Tok s) = kw_for \<longrightarrow> ParseForStatement n E s \<noteq> AssertionFailed)"
proof (induction n)
  case 0
  show ?case by simp
next
  case (Suc n)
  note IH = Suc.IH [rule_format]
  have d: "ParseStatementOrDeclaration n E b s \<noteq> AssertionFailed" for E b s
    using IH by blast
  have l: "CompoundLoop n E s \<noteq> AssertionFailed" for E s
    using IH by blast
  show ?case
  proof (intro allI conjI impI)
    fix E s b
    show "ParseStatementOrDeclaration (Suc n) E b s \<noteq> AssertionFailed"
      using IH [of E s]
      by (cases "kind (Tok s)")
        (auto simp: andThen_AssertionFailed ParseGotoStatement_def ParseReturnStatement_def
          Let_def)
  next
    fix E s
    assume "kind (Tok s) = l_brace"
    then show "ParseCompoundStatement (Suc n) E s \<noteq> AssertionFailed"
      using l by (auto simp: andThen_AssertionFailed)
  next
    fix E s
    show "CompoundLoop (Suc n) E s \<noteq> AssertionFailed"
      using d l by (auto simp: andThen_AssertionFailed)
  next
    fix E s
    assume "kind (Tok s) = kw_if"
    then show "ParseIfStatement (Suc n) E s \<noteq> AssertionFailed"
      using d by (auto simp: andThen_AssertionFailed Let_def)
  next
    fix E s
    assume "kind (Tok s) = kw_switch"
    then show "ParseSwitchStatement (Suc n) E s \<noteq> AssertionFailed"
      using d by (auto simp: Let_def)
  next
    fix E s
    assume "kind (Tok s) = kw_while"
    then show "ParseWhileStatement (Suc n) E s \<noteq> AssertionFailed"
      using d by (auto simp: Let_def)
  next
    fix E s
    assume "kind (Tok s) = kw_do"
    then show "ParseDoStatement (Suc n) E s \<noteq> AssertionFailed"
      using d by (auto simp: andThen_AssertionFailed Let_def)
  next
    fix E s
    assume "kind (Tok s) = kw_for"
    then show "ParseForStatement (Suc n) E s \<noteq> AssertionFailed"
      using d by (auto simp: Let_def)
  qed
qed

lemma returns_normally:
  assumes "returnsWithin run L"
    and "\<And>n m r. n \<le> m \<Longrightarrow> run n = Returned r \<Longrightarrow> run m = Returned r"
    and "\<And>m. run m \<noteq> AssertionFailed"
  shows "\<exists>n r. \<forall>m. (n \<le> m \<longrightarrow> run m = Returned r) \<and> run m \<noteq> AssertionFailed"
  using assms unfolding returnsWithin_def by blast

section \<open>The block loop meets its contract\<close>

lemma loop_sound:
  "CompoundLoop n E s = Returned r \<Longrightarrow>
     RepeatedDispatch E s r \<and> (kind (Tok r) = r_brace \<or> kind (Tok r) = eof)"
proof (induction n arbitrary: s)
  case 0
  then show ?case by simp
next
  case (Suc n)
  show ?case
  proof (cases "kind (Tok s) \<noteq> r_brace \<and> kind (Tok s) \<noteq> eof")
    case False
    then have "r = s" using Suc.prems by auto
    then show ?thesis using False by (auto intro: RepeatedDispatch.stop)
  next
    case True
    then obtain s' where d: "ParseStatementOrDeclaration n E False s = Returned s'"
      and c: "CompoundLoop n E s' = Returned r"
      using Suc.prems by (auto simp: andThen_Returned)
    from Suc.IH [OF c] True d show ?thesis
      by (blast intro: RepeatedDispatch.step)
  qed
qed

section \<open>The sample collaborators are well behaved\<close>

lemma SkipUntilSpec_le: "length (toks (SkipUntilSpec T s)) \<le> length (toks s)"
  using length_dropWhile_le [of "\<lambda>t. kind t \<noteq> T" "toks s"]
  by (simp add: SkipUntilSpec_def)

lemma SkipUntilSpec_less:
  assumes "kind (Tok s) \<noteq> eof"
  shows "length (toks (SkipUntilSpec T s)) < length (toks s)"
proof -
  have "0 < length (toks s)" using assms by (auto simp: Tok_def)
  moreover have "length (dropWhile (\<lambda>t. kind t \<noteq> T) (toks s)) \<le> length (toks s)"
    by (rule length_dropWhile_le)
  ultimately have "length (dropWhile (\<lambda>t. kind t \<noteq> T) (toks s)) - 1 < length (toks s)"
    by arith
  then show ?thesis by (simp add: SkipUntilSpec_def)
qed

lemma sampleParseExpression_le:
  "length (toks (sampleParseExpression s)) \<le> length (toks s)"
  by (simp add: sampleParseExpression_def)

lemma sampleParseParenExpression_le:
  "length (toks (sampleParseParenExpression s)) \<le> length (toks s)"
proof -
  have "length (toks (sampleParseExpression (ConsumeParen s))) \<le> length (toks s)"
    using sampleParseExpression_le [of "ConsumeParen s"] by simp
  moreover from this
  have "length (toks (sampleParseExpression (ConsumeParen s))) - 1 \<le> length (toks s)"
    by arith
  ultimately show ?thesis
    by (simp add: sampleParseParenExpression_def Let_def)
qed

lemma wellBehaved_sampleEnv: "wellBehaved sampleEnv"
  by (simp add: wellBehaved_def sampleEnv_def SkipUntilSpec_le SkipUntilSpec_less
      sampleParseExpression_le sampleParseParenExpression_le)

section \<open>The claims\<close>

text \<open>
  Claim C9. The dispatcher never reads its \<^verbatim>\<open>OnlyStatement\<close> parameter: on every state,
  with every collaborator and every bound on the recursion, the call with \<open>True\<close> and
  the call with \<open>False\<close> have the same outcome, tokens and diagnostics included.
\<close>

theorem OnlyStatement_has_no_effect:
  "ParseStatementOrDeclaration n E True s = ParseStatementOrDeclaration n E False s"
  by (cases n) simp_all

text \<open>
  Claim C1. The comment of \<^verbatim>\<open>ParseStatementOrDeclaration\<close> lists labeled statements and
  \<^verbatim>\<open>expression[opt] ';'\<close> in the grammar it reads, but its switch has no case for an
  identifier, \<^verbatim>\<open>case\<close> or \<^verbatim>\<open>default\<close>: on the well-formed statements \<^verbatim>\<open>x ;\<close>,
  \<^verbatim>\<open>L : ;\<close>, \<^verbatim>\<open>case 1 : ;\<close> and \<^verbatim>\<open>default : ;\<close> the dispatcher takes the default
  branch, reports \<^verbatim>\<open>err_expected_statement_declaration\<close> at the first token and skips
  to the semicolon.
\<close>

theorem labeled_and_expression_statements_rejected:
  "ParseStatementOrDeclaration (Suc 0) sampleEnv False (input [identifier_tok, semi]) =
     Returned \<lparr>toks = [], eofLoc = 2,
       diags = [\<lparr>dLoc = 0, dKind = err_expected_statement_declaration, dArg = []\<rparr>]\<rparr>
   \<and> ParseStatementOrDeclaration (Suc 0) sampleEnv False
       (input [identifier_tok, colon, semi]) =
     Returned \<lparr>toks = [], eofLoc = 3,
       diags = [\<lparr>dLoc = 0, dKind = err_expected_statement_declaration, dArg = []\<rparr>]\<rparr>
   \<and> ParseStatementOrDeclaration (Suc 0) sampleEnv False
       (input [kw_case, numeric_constant, colon, semi]) =
     Returned \<lparr>toks = [], eofLoc = 4,
       diags = [\<lparr>dLoc = 0, dKind = err_expected_statement_declaration, dArg = []\<rparr>]\<rparr>
   \<and> ParseStatementOrDeclaration (Suc 0) sampleEnv False
       (input [kw_default, colon, semi]) =
     Returned \<lparr>toks = [], eofLoc = 3,
       diags = [\<lparr>dLoc = 0, dKind = err_expected_statement_declaration, dArg = []\<rparr>]\<rparr>"
  by (simp add: run_defs)

text \<open>
  Claim C6. After \<^verbatim>\<open>goto\<close>: an identifier is consumed and nothing more; a \<^verbatim>\<open>*\<close> with
  extensions enabled gets exactly one \<^verbatim>\<open>ext_gnu_indirect_goto\<close> diagnostic at the
  \<^verbatim>\<open>*\<close>, is consumed, and the expression parser runs on what follows; a \<^verbatim>\<open>*\<close> with
  extensions disabled stays the current token and the routine reports nothing.
\<close>

theorem goto_target:
  assumes "toks s = g # t # rest" and "kind g = kw_goto"
  shows "(kind t = identifier_tok \<longrightarrow>
            ParseGotoStatement E s = Returned (s\<lparr>toks := rest\<rparr>))
       \<and> (kind t = star \<and> \<not> NoExtensions E \<longrightarrow>
            ParseGotoStatement E s = Returned (ParseExpression E
              (s\<lparr>diags := diags s @
                   [\<lparr>dLoc = loc t, dKind = ext_gnu_indirect_goto, dArg = []\<rparr>],
                 toks := rest\<rparr>)))
       \<and> (kind t = star \<and> NoExtensions E \<longrightarrow>
            ParseGotoStatement E s = Returned (s\<lparr>toks := t # rest\<rparr>))"
  using assms by (simp add: ParseGotoStatement_def Tok_def ConsumeToken_def Diag_def Let_def)

text \<open>The three cases on \<^verbatim>\<open>goto x ;\<close> and \<^verbatim>\<open>goto * x ;\<close>, the latter with and without extensions.\<close>

theorem goto_target_witness:
  "ParseGotoStatement sampleEnv (input [kw_goto, identifier_tok, semi]) =
     Returned \<lparr>toks = [tk semi 2], eofLoc = 3, diags = []\<rparr>
   \<and> ParseGotoStatement sampleEnv (input [kw_goto, star, identifier_tok, semi]) =
     Returned \<lparr>toks = [tk semi 3], eofLoc = 4,
       diags = [\<lparr>dLoc = 1, dKind = ext_gnu_indirect_goto, dArg = []\<rparr>]\<rparr>
   \<and> ParseGotoStatement (sampleEnv\<lparr>NoExtensions := True\<rparr>)
       (input [kw_goto, star, identifier_tok, semi]) =
     Returned \<lparr>toks = [tk star 1, tk identifier_tok 2, tk semi 3], eofLoc = 4, diags = []\<rparr>"
proof -
  let ?a = "input [kw_goto, identifier_tok, semi]"
  let ?b = "input [kw_goto, star, identifier_tok, semi]"
  have ta: "toks ?a = tk kw_goto 0 # tk identifier_tok 1 # [tk semi 2]"
    and tb: "toks ?b = tk kw_goto 0 # tk star 1 # [tk identifier_tok 2, tk semi 3]"
    by (simp_all add: input_def eval_nat_numeral)
  have g: "kind (tk kw_goto 0) = kw_goto"
    and i: "kind (tk identifier_tok 1) = identifier_tok"
    and on: "kind (tk star 1) = star \<and> \<not> NoExtensions sampleEnv"
    and off: "kind (tk star 1) = star \<and> NoExtensions (sampleEnv\<lparr>NoExtensions := True\<rparr>)"
    by (simp_all add: tk_def sampleEnv_def)
  note c2 = conjunct2
  show ?thesis
    using goto_target [OF ta g, where E = sampleEnv, THEN conjunct1, rule_format, OF i]
      goto_target [OF tb g, where E = sampleEnv, THEN c2, THEN conjunct1, rule_format, OF on]
      goto_target [OF tb g, where E = "sampleEnv\<lparr>NoExtensions := True\<rparr>", THEN c2, THEN c2,
        rule_format, OF off]
    by (simp add: input_def tk_def sampleEnv_def sampleParseExpression_def Tok_def
        ConsumeToken_def eval_nat_numeral)
qed

text \<open>
  Claim C5. On \<^verbatim>\<open>for ( ; ; )\<close> followed by anything, the for-routine consumes exactly
  these five tokens, reports nothing, and its outcome is that of parsing one body
  statement on the rest. This holds for every expression parser, whatever it would do:
  the three clauses never call it.
\<close>

theorem for_empty_clauses:
  assumes "toks s = t1 # t2 # t3 # t4 # t5 # rest"
    and "kind t1 = kw_for" and "kind t2 = l_paren" and "kind t3 = semi"
    and "kind t4 = semi" and "kind t5 = r_paren"
  shows "ParseForStatement (Suc n) E s = ParseStatement n E (s\<lparr>toks := rest\<rparr>)"
  using assms
  by (simp add: ParseStatement_def ForFirstPart_def ForSecondPart_def ForThirdPart_def
      Tok_def ConsumeToken_def ConsumeParen_def Let_def)

text \<open>A run on \<^verbatim>\<open>for ( ; ; ) break ; return\<close>.\<close>

theorem for_empty_clauses_witness:
  "ParseForStatement (Suc (Suc 0)) sampleEnv
     (input [kw_for, l_paren, semi, semi, r_paren, kw_break, semi, kw_return]) =
   Returned \<lparr>toks = [tk kw_return 7], eofLoc = 8, diags = []\<rparr>"
proof -
  let ?s = "input [kw_for, l_paren, semi, semi, r_paren, kw_break, semi, kw_return]"
  have t: "toks ?s = tk kw_for 0 # tk l_paren 1 # tk semi 2 # tk semi 3 # tk r_paren 4 #
      [tk kw_break 5, tk semi 6, tk kw_return 7]"
    by (simp add: input_def eval_nat_numeral)
  have k: "kind (tk kw_for 0) = kw_for" "kind (tk l_paren 1) = l_paren"
    "kind (tk semi 2) = semi" "kind (tk semi 3) = semi" "kind (tk r_paren 4) = r_paren"
    by (simp_all add: tk_def)
  show ?thesis
    using for_empty_clauses [OF t k, of "Suc 0" sampleEnv]
    by (simp add: input_def tk_def ParseStatement_def MustEndInSemi_def Tok_def
        ConsumeToken_def eval_nat_numeral)
qed

text \<open>
  Claim C2. For \<^verbatim>\<open>do\<close>, \<^verbatim>\<open>goto\<close>, \<^verbatim>\<open>continue\<close>, \<^verbatim>\<open>break\<close> and \<^verbatim>\<open>return\<close>, once
  the keyword-specific part has returned in state \<open>s'\<close>, the dispatcher consumes the
  current token if it is a semicolon; otherwise it appends exactly one
  \<^verbatim>\<open>err_expected_semi_after\<close> diagnostic carrying the label of the statement kind and
  hands the state to \<^verbatim>\<open>SkipUntil(tok::semi)\<close>.
\<close>

theorem semicolon_enforcement:
  "(let enforce = (\<lambda>label s'.
          if kind (Tok s') = semi then ConsumeToken s'
          else SkipUntil E semi
                 (s'\<lparr>diags := diags s' @
                    [\<lparr>dLoc = loc (Tok s'), dKind = err_expected_semi_after,
                      dArg = label\<rparr>]\<rparr>))
    in (kind (Tok s) = kw_do \<and> ParseDoStatement n E s = Returned s' \<longrightarrow>
          ParseStatementOrDeclaration (Suc n) E b s =
            Returned (enforce ''do/while loop'' s'))
     \<and> (kind (Tok s) = kw_goto \<and> ParseGotoStatement E s = Returned s' \<longrightarrow>
          ParseStatementOrDeclaration (Suc n) E b s =
            Returned (enforce ''goto statement'' s'))
     \<and> (kind (Tok s) = kw_continue \<and> ConsumeToken s = s' \<longrightarrow>
          ParseStatementOrDeclaration (Suc n) E b s =
            Returned (enforce ''continue statement'' s'))
     \<and> (kind (Tok s) = kw_break \<and> ConsumeToken s = s' \<longrightarrow>
          ParseStatementOrDeclaration (Suc n) E b s =
            Returned (enforce ''break statement'' s'))
     \<and> (kind (Tok s) = kw_return \<and> ParseReturnStatement E s = Returned s' \<longrightarrow>
          ParseStatementOrDeclaration (Suc n) E b s =
            Returned (enforce ''return statement'' s')))"
  by (auto simp: Let_def MustEndInSemi_def Diag_def)

text \<open>One run for each of the five statement kinds, two of them with the semicolon missing.\<close>

theorem semicolon_enforcement_witness:
  "ParseStatementOrDeclaration (Suc (Suc (Suc 0))) sampleEnv False
     (input [kw_do, semi, kw_while, l_paren, identifier_tok, r_paren, semi, kw_break]) =
     Returned \<lparr>toks = [tk kw_break 7], eofLoc = 8, diags = []\<rparr>
   \<and> ParseStatementOrDeclaration (Suc 0) sampleEnv False
       (input [kw_goto, identifier_tok, kw_break, semi]) =
     Returned \<lparr>toks = [], eofLoc = 4,
       diags = [\<lparr>dLoc = 2, dKind = err_expected_semi_after, dArg = ''goto statement''\<rparr>]\<rparr>
   \<and> ParseStatementOrDeclaration (Suc 0) sampleEnv False
       (input [kw_continue, semi, kw_break]) =
     Returned \<lparr>toks = [tk kw_break 2], eofLoc = 3, diags = []\<rparr>
   \<and> ParseStatementOrDeclaration (Suc 0) sampleEnv False
       (input [kw_break, identifier_tok, semi, kw_return]) =
     Returned \<lparr>toks = [tk kw_return 3], eofLoc = 4,
       diags = [\<lparr>dLoc = 1, dKind = err_expected_semi_after, dArg = ''break statement''\<rparr>]\<rparr>
   \<and> ParseStatementOrDeclaration (Suc 0) sampleEnv False
       (input [kw_return, identifier_tok, semi, kw_break]) =
     Returned \<lparr>toks = [tk kw_break 3], eofLoc = 4, diags = []\<rparr>"
proof -
  let ?d = "input [kw_do, semi, kw_while, l_paren, identifier_tok, r_paren, semi, kw_break]"
  let ?d' = "\<lparr>toks = [tk semi 6, tk kw_break 7], eofLoc = 8, diags = []\<rparr>"
  let ?g = "input [kw_goto, identifier_tok, kw_break, semi]"
  let ?g' = "\<lparr>toks = [tk kw_break 2, tk semi 3], eofLoc = 4, diags = []\<rparr>"
  let ?c = "input [kw_continue, semi, kw_break]"
  let ?c' = "\<lparr>toks = [tk semi 1, tk kw_break 2], eofLoc = 3, diags = []\<rparr>"
  let ?b = "input [kw_break, identifier_tok, semi, kw_return]"
  let ?b' = "\<lparr>toks = [tk identifier_tok 1, tk semi 2, tk kw_return 3], eofLoc = 4,
      diags = []\<rparr>"
  let ?r = "input [kw_return, identifier_tok, semi, kw_break]"
  let ?r' = "\<lparr>toks = [tk semi 2, tk kw_break 3], eofLoc = 4, diags = []\<rparr>"
  have hd: "kind (Tok ?d) = kw_do \<and> ParseDoStatement (Suc (Suc 0)) sampleEnv ?d = Returned ?d'"
    and hg: "kind (Tok ?g) = kw_goto \<and> ParseGotoStatement sampleEnv ?g = Returned ?g'"
    and hc: "kind (Tok ?c) = kw_continue \<and> ConsumeToken ?c = ?c'"
    and hb: "kind (Tok ?b) = kw_break \<and> ConsumeToken ?b = ?b'"
    and hr: "kind (Tok ?r) = kw_return \<and> ParseReturnStatement sampleEnv ?r = Returned ?r'"
    by (simp_all add: run_defs eval_nat_numeral)
  note c2 = conjunct2
  note T = semicolon_enforcement [where E = sampleEnv and b = False, unfolded Let_def]
  show ?thesis
    using T [THEN conjunct1, rule_format, OF hd]
      T [THEN c2, THEN conjunct1, rule_format, OF hg]
      T [THEN c2, THEN c2, THEN conjunct1, rule_format, OF hc]
      T [THEN c2, THEN c2, THEN c2, THEN conjunct1, rule_format, OF hb]
      T [THEN c2, THEN c2, THEN c2, THEN c2, rule_format, OF hr]
    by (simp add: tk_def Tok_def ConsumeToken_def sampleEnv_def SkipUntilSpec_def)
qed

text \<open>
  Claim C4. The do-routine consumes \<^verbatim>\<open>do\<close> and parses one body statement. If the
  current token is then not \<^verbatim>\<open>while\<close>, it reports \<^verbatim>\<open>err_expected_while\<close> there and
  \<^verbatim>\<open>err_matching\<close> at the location of the \<^verbatim>\<open>do\<close>, and returns what
  \<^verbatim>\<open>SkipUntil(tok::semi)\<close> returns. Otherwise it consumes \<^verbatim>\<open>while\<close> and either
  recovers from a missing parenthesis in the same way or returns exactly the state the
  condition parser leaves. In all three cases the last step is a collaborator's: the
  routine itself consumes the two keywords and nothing else, so no semicolon.
\<close>

theorem do_statement_paths:
  assumes "kind (Tok s) = kw_do"
    and "ParseStatement n E (ConsumeToken s) = Returned s1"
  shows "ParseDoStatement (Suc n) E s = Returned
     (if kind (Tok s1) \<noteq> kw_while then
        SkipUntil E semi
          (s1\<lparr>diags := diags s1 @
             [\<lparr>dLoc = loc (Tok s1), dKind = err_expected_while, dArg = []\<rparr>,
              \<lparr>dLoc = loc (Tok s), dKind = err_matching, dArg = []\<rparr>]\<rparr>)
      else if kind (Tok (ConsumeToken s1)) \<noteq> l_paren then
        SkipUntil E semi
          ((ConsumeToken s1)\<lparr>diags := diags s1 @
             [\<lparr>dLoc = loc (Tok (ConsumeToken s1)), dKind = err_expected_lparen_after,
               dArg = ''do/while''\<rparr>]\<rparr>)
      else ParseParenExpression E (ConsumeToken s1))"
  using assms by (simp add: ParseStatement_def Let_def Diag_def)

text \<open>A well-formed \<^verbatim>\<open>do ; while ( x ) ;\<close> and a \<^verbatim>\<open>do\<close> without its \<^verbatim>\<open>while\<close>.\<close>

theorem do_statement_paths_witness:
  "ParseDoStatement (Suc (Suc 0)) sampleEnv
     (input [kw_do, semi, kw_while, l_paren, identifier_tok, r_paren, semi, kw_break]) =
     Returned \<lparr>toks = [tk semi 6, tk kw_break 7], eofLoc = 8, diags = []\<rparr>
   \<and> ParseDoStatement (Suc (Suc 0)) sampleEnv
     (input [kw_do, semi, identifier_tok, semi, kw_break, semi]) =
     Returned \<lparr>toks = [tk kw_break 4, tk semi 5], eofLoc = 6,
       diags = [\<lparr>dLoc = 2, dKind = err_expected_while, dArg = []\<rparr>,
                \<lparr>dLoc = 0, dKind = err_matching, dArg = []\<rparr>]\<rparr>"
proof -
  let ?good = "input [kw_do, semi, kw_while, l_paren, identifier_tok, r_paren, semi, kw_break]"
  let ?bad = "input [kw_do, semi, identifier_tok, semi, kw_break, semi]"
  have k1: "kind (Tok ?good) = kw_do" and k2: "kind (Tok ?bad) = kw_do"
    by (simp_all add: input_def tk_def Tok_def)
  have b1: "ParseStatement (Suc 0) sampleEnv (ConsumeToken ?good) =
      Returned \<lparr>toks = [tk kw_while 2, tk l_paren 3, tk identifier_tok 4, tk r_paren 5,
        tk semi 6, tk kw_break 7], eofLoc = 8, diags = []\<rparr>"
    by (simp add: run_defs eval_nat_numeral)
  have b2: "ParseStatement (Suc 0) sampleEnv (ConsumeToken ?bad) =
      Returned \<lparr>toks = [tk identifier_tok 2, tk semi 3, tk kw_break 4, tk semi 5],
        eofLoc = 6, diags = []\<rparr>"
    by (simp add: run_defs eval_nat_numeral)
  show ?thesis
    using do_statement_paths [OF k1 b1] do_statement_paths [OF k2 b2]
    by (simp add: input_def tk_def Tok_def ConsumeToken_def ConsumeParen_def sampleEnv_def
        sampleParseParenExpression_def sampleParseExpression_def SkipUntilSpec_def Let_def
        eval_nat_numeral)
qed

text \<open>
  Claim C8. When the do-routine leaves through one of its two recovery paths in state
  \<open>r\<close> and the current token of \<open>r\<close> is not a semicolon, the dispatcher adds an
  \<^verbatim>\<open>err_expected_semi_after\<close> diagnostic labelled \<^verbatim>\<open>do/while loop\<close> and runs
  \<^verbatim>\<open>SkipUntil(tok::semi)\<close> a second time.
\<close>

theorem do_recovery_then_semicolon_check:
  assumes "kind (Tok s) = kw_do"
    and "ParseStatement n E (ConsumeToken s) = Returned s1"
    and "kind (Tok s1) \<noteq> kw_while \<and>
           r = SkipUntil E semi
                 (Diag (loc (Tok s)) err_matching []
                   (Diag (loc (Tok s1)) err_expected_while [] s1))
         \<or> kind (Tok s1) = kw_while \<and> kind (Tok (ConsumeToken s1)) \<noteq> l_paren \<and>
           r = SkipUntil E semi
                 (Diag (loc (Tok (ConsumeToken s1))) err_expected_lparen_after ''do/while''
                   (ConsumeToken s1))"
    and "kind (Tok r) \<noteq> semi"
  shows "ParseStatementOrDeclaration (Suc (Suc n)) E b s =
     Returned (SkipUntil E semi
       (r\<lparr>diags := diags r @
          [\<lparr>dLoc = loc (Tok r), dKind = err_expected_semi_after,
            dArg = ''do/while loop''\<rparr>]\<rparr>))"
  using assms by (auto simp: ParseStatement_def Let_def MustEndInSemi_def Diag_def)

text \<open>Both recovery paths on concrete inputs: the second recovery swallows the next statement.\<close>

theorem do_recovery_then_semicolon_check_witness:
  "ParseStatementOrDeclaration (Suc (Suc (Suc 0))) sampleEnv False
     (input [kw_do, semi, identifier_tok, semi, kw_break, semi]) =
     Returned \<lparr>toks = [], eofLoc = 6,
       diags = [\<lparr>dLoc = 2, dKind = err_expected_while, dArg = []\<rparr>,
                \<lparr>dLoc = 0, dKind = err_matching, dArg = []\<rparr>,
                \<lparr>dLoc = 4, dKind = err_expected_semi_after, dArg = ''do/while loop''\<rparr>]\<rparr>
   \<and> ParseStatementOrDeclaration (Suc (Suc (Suc 0))) sampleEnv False
     (input [kw_do, semi, kw_while, identifier_tok, semi, kw_break, semi]) =
     Returned \<lparr>toks = [], eofLoc = 7,
       diags = [\<lparr>dLoc = 3, dKind = err_expected_lparen_after, dArg = ''do/while''\<rparr>,
                \<lparr>dLoc = 5, dKind = err_expected_semi_after, dArg = ''do/while loop''\<rparr>]\<rparr>"
proof -
  let ?a = "input [kw_do, semi, identifier_tok, semi, kw_break, semi]"
  let ?b = "input [kw_do, semi, kw_while, identifier_tok, semi, kw_break, semi]"
  let ?a1 = "\<lparr>toks = [tk identifier_tok 2, tk semi 3, tk kw_break 4, tk semi 5],
        eofLoc = 6, diags = []\<rparr>"
  let ?b1 = "\<lparr>toks = [tk kw_while 2, tk identifier_tok 3, tk semi 4, tk kw_break 5,
        tk semi 6], eofLoc = 7, diags = []\<rparr>"
  let ?ra = "\<lparr>toks = [tk kw_break 4, tk semi 5], eofLoc = 6,
       diags = [\<lparr>dLoc = 2, dKind = err_expected_while, dArg = []\<rparr>,
                \<lparr>dLoc = 0, dKind = err_matching, dArg = []\<rparr>]\<rparr>"
  let ?rb = "\<lparr>toks = [tk kw_break 5, tk semi 6], eofLoc = 7,
       diags = [\<lparr>dLoc = 3, dKind = err_expected_lparen_after, dArg = ''do/while''\<rparr>]\<rparr>"
  have ka: "kind (Tok ?a) = kw_do" and kb: "kind (Tok ?b) = kw_do"
    by (simp_all add: input_def tk_def Tok_def)
  have ba: "ParseStatement (Suc 0) sampleEnv (ConsumeToken ?a) = Returned ?a1"
    by (simp add: run_defs eval_nat_numeral)
  have bb: "ParseStatement (Suc 0) sampleEnv (ConsumeToken ?b) = Returned ?b1"
    by (simp add: run_defs eval_nat_numeral)
  have pa: "kind (Tok ?a1) \<noteq> kw_while \<and>
           ?ra = SkipUntil sampleEnv semi
                 (Diag (loc (Tok ?a)) err_matching []
                   (Diag (loc (Tok ?a1)) err_expected_while [] ?a1))
         \<or> kind (Tok ?a1) = kw_while \<and> kind (Tok (ConsumeToken ?a1)) \<noteq> l_paren \<and>
           ?ra = SkipUntil sampleEnv semi
                 (Diag (loc (Tok (ConsumeToken ?a1))) err_expected_lparen_after ''do/while''
                   (ConsumeToken ?a1))"
    by (simp add: run_defs eval_nat_numeral)
  have pb: "kind (Tok ?b1) \<noteq> kw_while \<and>
           ?rb = SkipUntil sampleEnv semi
                 (Diag (loc (Tok ?b)) err_matching []
                   (Diag (loc (Tok ?b1)) err_expected_while [] ?b1))
         \<or> kind (Tok ?b1) = kw_while \<and> kind (Tok (ConsumeToken ?b1)) \<noteq> l_paren \<and>
           ?rb = SkipUntil sampleEnv semi
                 (Diag (loc (Tok (ConsumeToken ?b1))) err_expected_lparen_after ''do/while''
                   (ConsumeToken ?b1))"
    by (simp add: run_defs eval_nat_numeral)
  have na: "kind (Tok ?ra) \<noteq> semi" and nb: "kind (Tok ?rb) \<noteq> semi"
    by (simp_all add: tk_def Tok_def)
  show ?thesis
    using do_recovery_then_semicolon_check [OF ka ba pa na, of False]
      do_recovery_then_semicolon_check [OF kb bb pb nb, of False]
    by (simp add: tk_def Tok_def sampleEnv_def SkipUntilSpec_def)
qed

text \<open>
  Claim C3. With the current token an opening brace, whenever the compound-statement
  parser returns it has consumed the brace and invoked the dispatcher repeatedly until
  some state \<open>s'\<close> whose current token is a closing brace or the end of the input. In
  the first case it returns \<open>s'\<close> with the brace consumed. In the second it returns
  \<open>s'\<close> with one \<^verbatim>\<open>err_expected_rbrace\<close> diagnostic added and no token consumed, still
  at the end of the input. And it does return, for all large enough bounds on the
  recursion, when the collaborators are well behaved.
\<close>

theorem compound_statement:
  assumes "kind (Tok s) = l_brace"
  shows "(\<forall>n r. ParseCompoundStatement n E s = Returned r \<longrightarrow>
           (\<exists>s'. RepeatedDispatch E (ConsumeBrace s) s' \<and>
              (kind (Tok s') = r_brace \<and> r = ConsumeBrace s' \<or>
               kind (Tok s') = eof \<and> toks r = toks s' \<and> kind (Tok r) = eof \<and>
               diags r = diags s' @
                 [\<lparr>dLoc = loc (Tok s'), dKind = err_expected_rbrace, dArg = []\<rparr>])))
       \<and> (wellBehaved E \<longrightarrow> (\<exists>n r. \<forall>m\<ge>n. ParseCompoundStatement m E s = Returned r))"
proof (intro conjI allI impI)
  fix n r
  assume ret: "ParseCompoundStatement n E s = Returned r"
  then obtain k where n: "n = Suc k" by (cases n) auto
  from ret obtain s' where c: "CompoundLoop k E (ConsumeBrace s) = Returned s'"
    and r: "r = (if kind (Tok s') = r_brace then ConsumeBrace s'
                 else Diag (loc (Tok s')) err_expected_rbrace [] s')"
    using assms unfolding n by (auto simp: andThen_Returned split: if_splits)
  from loop_sound [OF c] have rd: "RepeatedDispatch E (ConsumeBrace s) s'"
    and e: "kind (Tok s') = r_brace \<or> kind (Tok s') = eof" by blast+
  show "\<exists>s'. RepeatedDispatch E (ConsumeBrace s) s' \<and>
              (kind (Tok s') = r_brace \<and> r = ConsumeBrace s' \<or>
               kind (Tok s') = eof \<and> toks r = toks s' \<and> kind (Tok r) = eof \<and>
               diags r = diags s' @
                 [\<lparr>dLoc = loc (Tok s'), dKind = err_expected_rbrace, dArg = []\<rparr>])"
    using rd e r by (intro exI [of _ s']) auto
next
  assume wb: "wellBehaved E"
  show "\<exists>n r. \<forall>m\<ge>n. ParseCompoundStatement m E s = Returned r"
    by (rule returns_stably [OF compound_returns [OF wb dispatch_below [OF wb] assms]])
       (rule compound_mono)
qed

text \<open>Runs on \<^verbatim>\<open>{ ; break ; } return\<close> and on the unterminated block \<^verbatim>\<open>{ ;\<close>.\<close>

theorem compound_statement_witness:
  "kind (Tok (input [l_brace, semi, kw_break, semi, r_brace, kw_return])) = l_brace
   \<and> ParseCompoundStatement (Suc (Suc (Suc (Suc 0)))) sampleEnv
       (input [l_brace, semi, kw_break, semi, r_brace, kw_return]) =
     Returned \<lparr>toks = [tk kw_return 5], eofLoc = 6, diags = []\<rparr>
   \<and> (\<exists>s'. RepeatedDispatch sampleEnv
         (ConsumeBrace (input [l_brace, semi, kw_break, semi, r_brace, kw_return])) s' \<and>
         kind (Tok s') = r_brace \<and>
         \<lparr>toks = [tk kw_return 5], eofLoc = 6, diags = []\<rparr> = ConsumeBrace s')
   \<and> wellBehaved sampleEnv
   \<and> (\<exists>n r. \<forall>m\<ge>n. ParseCompoundStatement m sampleEnv
         (input [l_brace, semi, kw_break, semi, r_brace, kw_return]) = Returned r)
   \<and> kind (Tok (input [l_brace, semi])) = l_brace
   \<and> ParseCompoundStatement (Suc (Suc (Suc 0))) sampleEnv (input [l_brace, semi]) =
     Returned \<lparr>toks = [], eofLoc = 2,
       diags = [\<lparr>dLoc = 2, dKind = err_expected_rbrace, dArg = []\<rparr>]\<rparr>
   \<and> (\<exists>s'. RepeatedDispatch sampleEnv (ConsumeBrace (input [l_brace, semi])) s' \<and>
         (kind (Tok s') = r_brace \<and>
          \<lparr>toks = [], eofLoc = 2,
            diags = [\<lparr>dLoc = 2, dKind = err_expected_rbrace, dArg = []\<rparr>]\<rparr> =
            ConsumeBrace s' \<or>
          kind (Tok s') = eof \<and>
          toks \<lparr>toks = [], eofLoc = 2,
            diags = [\<lparr>dLoc = 2, dKind = err_expected_rbrace, dArg = []\<rparr>]\<rparr> = toks s' \<and>
          kind (Tok \<lparr>toks = [], eofLoc = 2,
            diags = [\<lparr>dLoc = 2, dKind = err_expected_rbrace, dArg = []\<rparr>]\<rparr>) = eof \<and>
          diags \<lparr>toks = [], eofLoc = 2,
            diags = [\<lparr>dLoc = 2, dKind = err_expected_rbrace, dArg = []\<rparr>]\<rparr> =
            diags s' @ [\<lparr>dLoc = loc (Tok s'), dKind = err_expected_rbrace, dArg = []\<rparr>]))"
proof -
  let ?a = "input [l_brace, semi, kw_break, semi, r_brace, kw_return]"
  let ?ra = "\<lparr>toks = [tk kw_return 5], eofLoc = 6, diags = []\<rparr>"
  let ?b = "input [l_brace, semi]"
  let ?rb = "\<lparr>toks = [], eofLoc = 2,
       diags = [\<lparr>dLoc = 2, dKind = err_expected_rbrace, dArg = []\<rparr>]\<rparr>"
  have ka: "kind (Tok ?a) = l_brace" and kb: "kind (Tok ?b) = l_brace"
    by (simp_all add: input_def tk_def Tok_def)
  have ea: "ParseCompoundStatement (Suc (Suc (Suc (Suc 0)))) sampleEnv ?a = Returned ?ra"
    by (simp add: run_defs eval_nat_numeral)
  have eb: "ParseCompoundStatement (Suc (Suc (Suc 0))) sampleEnv ?b = Returned ?rb"
    by (simp add: run_defs eval_nat_numeral)
  have na: "kind (Tok ?ra) \<noteq> eof"
    by (simp add: tk_def Tok_def)
  note A = compound_statement [OF ka, where E = sampleEnv]
  note B = compound_statement [OF kb, where E = sampleEnv]
  from A [THEN conjunct1, rule_format, OF ea] na
  have a: "\<exists>s'. RepeatedDispatch sampleEnv (ConsumeBrace ?a) s' \<and>
         kind (Tok s') = r_brace \<and> ?ra = ConsumeBrace s'"
    by blast
  from B [THEN conjunct1, rule_format, OF eb]
  have b: "\<exists>s'. RepeatedDispatch sampleEnv (ConsumeBrace ?b) s' \<and>
         (kind (Tok s') = r_brace \<and> ?rb = ConsumeBrace s' \<or>
          kind (Tok s') = eof \<and> toks ?rb = toks s' \<and> kind (Tok ?rb) = eof \<and>
          diags ?rb =
            diags s' @ [\<lparr>dLoc = loc (Tok s'), dKind = err_expected_rbrace, dArg = []\<rparr>])" .
  show ?thesis
    by (intro conjI ka ea a wellBehaved_sampleEnv kb eb b
        A [THEN conjunct2, rule_format, OF wellBehaved_sampleEnv])
qed

text \<open>
  Claim C10. In the for-routine a missing semicolon after the expression of the first
  clause, or after the expression of the second, adds the two diagnostics
  \<^verbatim>\<open>err_expected_semi_for\<close> and \<^verbatim>\<open>err_matching\<close> and runs \<^verbatim>\<open>SkipUntil(tok::semi)\<close>;
  the routine does not return there. From the recovered state it goes on with every
  step that remains, each written out below: after the first clause the second clause
  (its expression unless the current token is a semicolon, then the semicolon or the
  same recovery), after the second the third clause (its expression unless the current
  token is a closing parenthesis), then the check for the closing parenthesis and, when
  that succeeds, the body statement.
\<close>

theorem for_missing_semicolon_continues:
  assumes "kind (Tok s) = kw_for" and "kind (Tok (ConsumeToken s)) = l_paren"
    and "s2 = ConsumeParen (ConsumeToken s)"
  shows "(let ForLoc = loc (Tok s); LParenLoc = loc (Tok (ConsumeToken s));
              recover = (\<lambda>e. SkipUntil E semi
                 (e\<lparr>diags := diags e @
                    [\<lparr>dLoc = loc (Tok e), dKind = err_expected_semi_for, dArg = []\<rparr>,
                     \<lparr>dLoc = ForLoc, dKind = err_matching, dArg = []\<rparr>]\<rparr>));
              first = (\<lambda>t. if kind (Tok t) = semi then ConsumeToken t
                 else if isDeclarationSpecifier E t then
                   ParseDeclaration E ForContext
                     (if \<not> C99 E then
                        t\<lparr>diags := diags t @
                          [\<lparr>dLoc = loc (Tok t), dKind = ext_c99_variable_decl_in_for_loop,
                            dArg = []\<rparr>]\<rparr>
                      else t)
                 else let e = ParseExpression E t in
                   if kind (Tok e) = semi then ConsumeToken e else recover e);
              second = (\<lambda>t. let e = (if kind (Tok t) = semi then t else ParseExpression E t) in
                 if kind (Tok e) = semi then ConsumeToken e else recover e);
              third = (\<lambda>t. if kind (Tok t) = r_paren then t else ParseExpression E t);
              finish = (\<lambda>t. let s5 = third t in
                 if kind (Tok s5) = r_paren then ParseStatement n E (ConsumeParen s5)
                 else Returned (SkipUntil E r_paren
                   (s5\<lparr>diags := diags s5 @
                      [\<lparr>dLoc = loc (Tok s5), dKind = err_expected_rparen, dArg = []\<rparr>,
                       \<lparr>dLoc = LParenLoc, dKind = err_matching, dArg = []\<rparr>]\<rparr>)))
          in (kind (Tok s2) \<noteq> semi \<and> \<not> isDeclarationSpecifier E s2 \<and>
              e1 = ParseExpression E s2 \<and> kind (Tok e1) \<noteq> semi \<longrightarrow>
                ParseForStatement (Suc n) E s = finish (second (recover e1)))
           \<and> (s3 = first s2 \<and> kind (Tok s3) \<noteq> semi \<and>
              e2 = ParseExpression E s3 \<and> kind (Tok e2) \<noteq> semi \<longrightarrow>
                ParseForStatement (Suc n) E s = finish (recover e2)))"
proof -
  let ?F = "loc (Tok s)"
  have first: "ForFirstPart E ?F t =
      (if kind (Tok t) = semi then ConsumeToken t
       else if isDeclarationSpecifier E t then
         ParseDeclaration E ForContext
           (if \<not> C99 E then
              t\<lparr>diags := diags t @
                [\<lparr>dLoc = loc (Tok t), dKind = ext_c99_variable_decl_in_for_loop,
                  dArg = []\<rparr>]\<rparr>
            else t)
       else if kind (Tok (ParseExpression E t)) = semi then ConsumeToken (ParseExpression E t)
       else SkipUntil E semi
         ((ParseExpression E t)\<lparr>diags := diags (ParseExpression E t) @
            [\<lparr>dLoc = loc (Tok (ParseExpression E t)), dKind = err_expected_semi_for,
              dArg = []\<rparr>,
             \<lparr>dLoc = ?F, dKind = err_matching, dArg = []\<rparr>]\<rparr>))" for t
    by (simp add: ForFirstPart_def Diag_def Let_def)
  have unfold: "ParseForStatement (Suc n) E s =
      (let s5 = ForThirdPart E (ForSecondPart E ?F (ForFirstPart E ?F s2)) in
       if kind (Tok s5) = r_paren then ParseStatement n E (ConsumeParen s5)
       else Returned (SkipUntil E r_paren
         (s5\<lparr>diags := diags s5 @
            [\<lparr>dLoc = loc (Tok s5), dKind = err_expected_rparen, dArg = []\<rparr>,
             \<lparr>dLoc = loc (Tok (ConsumeToken s)), dKind = err_matching, dArg = []\<rparr>]\<rparr>)))"
    using assms by (simp add: Let_def ParseStatement_def Diag_def)
  show ?thesis
    unfolding Let_def
  proof (intro conjI impI, goal_cases)
    case 1
    then have "ForFirstPart E ?F s2 = SkipUntil E semi
         (e1\<lparr>diags := diags e1 @
            [\<lparr>dLoc = loc (Tok e1), dKind = err_expected_semi_for, dArg = []\<rparr>,
             \<lparr>dLoc = ?F, dKind = err_matching, dArg = []\<rparr>]\<rparr>)"
      by (clarsimp simp: first)
    then show ?case
      unfolding unfold by (simp add: Let_def ForSecondPart_def ForThirdPart_def Diag_def)
  next
    case 2
    from 2 have s3: "ForFirstPart E ?F s2 = s3"
      unfolding first by blast
    from 2 have k3: "kind (Tok s3) \<noteq> semi" and e2: "e2 = ParseExpression E s3"
      and k2: "kind (Tok e2) \<noteq> semi"
      by blast+
    have "ForSecondPart E ?F s3 = SkipUntil E semi
         (e2\<lparr>diags := diags e2 @
            [\<lparr>dLoc = loc (Tok e2), dKind = err_expected_semi_for, dArg = []\<rparr>,
             \<lparr>dLoc = ?F, dKind = err_matching, dArg = []\<rparr>]\<rparr>)"
      using k3 k2 unfolding e2 by (simp add: ForSecondPart_def Diag_def Let_def)
    then show ?case
      unfolding unfold s3 by (simp add: Let_def ForThirdPart_def)
  qed
qed

text \<open>
  A run on \<^verbatim>\<open>for ( x y ; z w ; v ) continue ; break\<close>: both semicolons are missed, the
  third clause and the body are still parsed.
\<close>

theorem for_missing_semicolon_continues_witness:
  "ParseForStatement (Suc (Suc 0)) sampleEnv
     (input [kw_for, l_paren, identifier_tok, identifier_tok, semi, identifier_tok,
       identifier_tok, semi, identifier_tok, r_paren, kw_continue, semi, kw_break]) =
   Returned \<lparr>toks = [tk kw_break 12], eofLoc = 13,
     diags = [\<lparr>dLoc = 3, dKind = err_expected_semi_for, dArg = []\<rparr>,
              \<lparr>dLoc = 0, dKind = err_matching, dArg = []\<rparr>,
              \<lparr>dLoc = 6, dKind = err_expected_semi_for, dArg = []\<rparr>,
              \<lparr>dLoc = 0, dKind = err_matching, dArg = []\<rparr>]\<rparr>"
proof -
  let ?s = "input [kw_for, l_paren, identifier_tok, identifier_tok, semi, identifier_tok,
       identifier_tok, semi, identifier_tok, r_paren, kw_continue, semi, kw_break]"
  let ?s2 = "ConsumeParen (ConsumeToken ?s)"
  let ?e1 = "\<lparr>toks = [tk identifier_tok 3, tk semi 4, tk identifier_tok 5,
           tk identifier_tok 6, tk semi 7, tk identifier_tok 8, tk r_paren 9,
           tk kw_continue 10, tk semi 11, tk kw_break 12], eofLoc = 13, diags = []\<rparr>"
  let ?s3 = "\<lparr>toks = [tk identifier_tok 5, tk identifier_tok 6, tk semi 7,
           tk identifier_tok 8, tk r_paren 9, tk kw_continue 10, tk semi 11,
           tk kw_break 12], eofLoc = 13,
           diags = [\<lparr>dLoc = 3, dKind = err_expected_semi_for, dArg = []\<rparr>,
              \<lparr>dLoc = 0, dKind = err_matching, dArg = []\<rparr>]\<rparr>"
  let ?e2 = "\<lparr>toks = [tk identifier_tok 6, tk semi 7, tk identifier_tok 8, tk r_paren 9,
           tk kw_continue 10, tk semi 11, tk kw_break 12], eofLoc = 13,
           diags = [\<lparr>dLoc = 3, dKind = err_expected_semi_for, dArg = []\<rparr>,
              \<lparr>dLoc = 0, dKind = err_matching, dArg = []\<rparr>]\<rparr>"
  have k: "kind (Tok ?s) = kw_for" and p: "kind (Tok (ConsumeToken ?s)) = l_paren"
    by (simp_all add: input_def tk_def Tok_def ConsumeToken_def)
  note T = for_missing_semicolon_continues [OF k p refl, where E = sampleEnv and n = "Suc 0",
      unfolded Let_def]
  have first: "kind (Tok ?s2) \<noteq> semi \<and> \<not> isDeclarationSpecifier sampleEnv ?s2 \<and>
      ?e1 = ParseExpression sampleEnv ?s2 \<and> kind (Tok ?e1) \<noteq> semi"
    by (simp add: run_defs eval_nat_numeral)
  have second: "?s3 =
      (if kind (Tok ?s2) = semi then ConsumeToken ?s2
       else if isDeclarationSpecifier sampleEnv ?s2 then
         ParseDeclaration sampleEnv ForContext
           (if \<not> C99 sampleEnv then
              ?s2\<lparr>diags := diags ?s2 @
                [\<lparr>dLoc = loc (Tok ?s2), dKind = ext_c99_variable_decl_in_for_loop,
                  dArg = []\<rparr>]\<rparr>
            else ?s2)
       else if kind (Tok (ParseExpression sampleEnv ?s2)) = semi
         then ConsumeToken (ParseExpression sampleEnv ?s2)
       else SkipUntil sampleEnv semi
         ((ParseExpression sampleEnv ?s2)\<lparr>diags := diags (ParseExpression sampleEnv ?s2) @
            [\<lparr>dLoc = loc (Tok (ParseExpression sampleEnv ?s2)),
              dKind = err_expected_semi_for, dArg = []\<rparr>,
             \<lparr>dLoc = loc (Tok ?s), dKind = err_matching, dArg = []\<rparr>]\<rparr>)) \<and>
      kind (Tok ?s3) \<noteq> semi \<and>
      ?e2 = ParseExpression sampleEnv ?s3 \<and> kind (Tok ?e2) \<noteq> semi"
    by (simp add: run_defs eval_nat_numeral)
  show ?thesis
    using T [THEN conjunct1, rule_format, OF first] T [THEN conjunct2, rule_format, OF second]
    by (simp add: run_defs eval_nat_numeral)
qed

text \<open>
  Claim C7. Assume the collaborators terminate (they are total functions here) and
  consumption advances the stream: no collaborator puts tokens back, and recovery moves
  past at least one token unless the input is exhausted. Then on every token stream,
  malformed ones included, the dispatcher returns normally for every large enough
  bound on the recursion, and no bound at all makes it stop at an assertion. The same
  holds for each statement routine on every state on which it is entered, that is, with
  the current token under whose case label the dispatcher calls it.
\<close>

theorem routines_return:
  assumes "wellBehaved E"
  shows "(\<exists>n r. \<forall>m. (n \<le> m \<longrightarrow> ParseStatementOrDeclaration m E b s = Returned r) \<and>
               ParseStatementOrDeclaration m E b s \<noteq> AssertionFailed)
       \<and> (kind (Tok s) = l_brace \<longrightarrow>
            (\<exists>n r. \<forall>m. (n \<le> m \<longrightarrow> ParseCompoundStatement m E s = Returned r) \<and>
               ParseCompoundStatement m E s \<noteq> AssertionFailed))
       \<and> (kind (Tok s) = kw_if \<longrightarrow>
            (\<exists>n r. \<forall>m. (n \<le> m \<longrightarrow> ParseIfStatement m E s = Returned r) \<and>
               ParseIfStatement m E s \<noteq> AssertionFailed))
       \<and> (kind (Tok s) = kw_switch \<longrightarrow>
            (\<exists>n r. \<forall>m. (n \<le> m \<longrightarrow> ParseSwitchStatement m E s = Returned r) \<and>
               ParseSwitchStatement m E s \<noteq> AssertionFailed))
       \<and> (kind (Tok s) = kw_while \<longrightarrow>
            (\<exists>n r. \<forall>m. (n \<le> m \<longrightarrow> ParseWhileStatement m E s = Returned r) \<and>
               ParseWhileStatement m E s \<noteq> AssertionFailed))
       \<and> (kind (Tok s) = kw_do \<longrightarrow>
            (\<exists>n r. \<forall>m. (n \<le> m \<longrightarrow> ParseDoStatement m E s = Returned r) \<and>
               ParseDoStatement m E s \<noteq> AssertionFailed))
       \<and> (kind (Tok s) = kw_for \<longrightarrow>
            (\<exists>n r. \<forall>m. (n \<le> m \<longrightarrow> ParseForStatement m E s = Returned r) \<and>
               ParseForStatement m E s \<noteq> AssertionFailed))
       \<and> (kind (Tok s) = kw_goto \<longrightarrow> (\<exists>r. ParseGotoStatement E s = Returned r))
       \<and> (kind (Tok s) = kw_return \<longrightarrow> (\<exists>r. ParseReturnStatement E s = Returned r))"
proof -
  note below = dispatch_below [OF assms, of "length (toks s)"]
  note na = never_asserts_all [rule_format]
  have "(\<exists>n r. \<forall>m. (n \<le> m \<longrightarrow> ParseStatementOrDeclaration m E b s = Returned r) \<and>
               ParseStatementOrDeclaration m E b s \<noteq> AssertionFailed)"
    by (rule returns_normally [OF dispatch_returns [OF assms]]) (rule dispatch_mono, assumption+, rule na [THEN conjunct1, rule_format])
  moreover have "(\<exists>n r. \<forall>m. (n \<le> m \<longrightarrow> ParseCompoundStatement m E s = Returned r) \<and>
               ParseCompoundStatement m E s \<noteq> AssertionFailed)"
    if "kind (Tok s) = l_brace"
    by (rule returns_normally [OF compound_returns [OF assms below that]])
       (rule compound_mono, assumption+, rule na [THEN conjunct2, THEN conjunct1, rule_format, OF that])
  moreover have "(\<exists>n r. \<forall>m. (n \<le> m \<longrightarrow> ParseIfStatement m E s = Returned r) \<and>
               ParseIfStatement m E s \<noteq> AssertionFailed)"
    if "kind (Tok s) = kw_if"
    by (rule returns_normally [OF if_returns [OF assms below that]])
       (rule if_mono, assumption+, rule na [THEN conjunct2, THEN conjunct2, THEN conjunct2, THEN conjunct1, rule_format, OF that])
  moreover have "(\<exists>n r. \<forall>m. (n \<le> m \<longrightarrow> ParseSwitchStatement m E s = Returned r) \<and>
               ParseSwitchStatement m E s \<noteq> AssertionFailed)"
    if "kind (Tok s) = kw_switch"
    by (rule returns_normally [OF switch_returns [OF assms below that]])
       (rule switch_mono, assumption+, rule na [THEN conjunct2, THEN conjunct2, THEN conjunct2, THEN conjunct2, THEN conjunct1, rule_format, OF that])
  moreover have "(\<exists>n r. \<forall>m. (n \<le> m \<longrightarrow> ParseWhileStatement m E s = Returned r) \<and>
               ParseWhileStatement m E s \<noteq> AssertionFailed)"
    if "kind (Tok s) = kw_while"
    by (rule returns_normally [OF while_returns [OF assms below that]])
       (rule while_mono, assumption+, rule na [THEN conjunct2, THEN conjunct2, THEN conjunct2, THEN conjunct2, THEN conjunct2, THEN conjunct1, rule_format, OF that])
  moreover have "(\<exists>n r. \<forall>m. (n \<le> m \<longrightarrow> ParseDoStatement m E s = Returned r) \<and>
               ParseDoStatement m E s \<noteq> AssertionFailed)"
    if "kind (Tok s) = kw_do"
    by (rule returns_normally [OF do_returns [OF assms below that]])
       (rule do_mono, assumption+, rule na [THEN conjunct2, THEN conjunct2, THEN conjunct2, THEN conjunct2, THEN conjunct2, THEN conjunct2, THEN conjunct1, rule_format, OF that])
  moreover have "(\<exists>n r. \<forall>m. (n \<le> m \<longrightarrow> ParseForStatement m E s = Returned r) \<and>
               ParseForStatement m E s \<noteq> AssertionFailed)"
    if "kind (Tok s) = kw_for"
    by (rule returns_normally [OF for_returns [OF assms below that]])
       (rule for_mono, assumption+, rule na [THEN conjunct2, THEN conjunct2, THEN conjunct2, THEN conjunct2, THEN conjunct2, THEN conjunct2, THEN conjunct2, rule_format, OF that])
  moreover have "\<exists>r. ParseGotoStatement E s = Returned r" if "kind (Tok s) = kw_goto"
    using goto_returns [OF assms that] by blast
  moreover have "\<exists>r. ParseReturnStatement E s = Returned r" if "kind (Tok s) = kw_return"
    using return_returns [OF assms that] by blast
  ultimately show ?thesis by blast
qed

text \<open>One malformed input for the dispatcher and for each routine.\<close>

theorem routines_return_witness:
  "wellBehaved sampleEnv
   \<and> (\<exists>n r. \<forall>m. (n \<le> m \<longrightarrow> ParseStatementOrDeclaration m sampleEnv False (input [l_brace, kw_if, identifier_tok, r_brace, r_paren]) = Returned r) \<and>
          ParseStatementOrDeclaration m sampleEnv False (input [l_brace, kw_if, identifier_tok, r_brace, r_paren]) \<noteq> AssertionFailed)
   \<and> (\<exists>n r. \<forall>m. (n \<le> m \<longrightarrow> ParseCompoundStatement m sampleEnv (input [l_brace, l_brace, kw_else, semi]) = Returned r) \<and>
          ParseCompoundStatement m sampleEnv (input [l_brace, l_brace, kw_else, semi]) \<noteq> AssertionFailed)
   \<and> (\<exists>n r. \<forall>m. (n \<le> m \<longrightarrow> ParseIfStatement m sampleEnv (input [kw_if, l_paren, r_paren, kw_else, kw_else]) = Returned r) \<and>
          ParseIfStatement m sampleEnv (input [kw_if, l_paren, r_paren, kw_else, kw_else]) \<noteq> AssertionFailed)
   \<and> (\<exists>n r. \<forall>m. (n \<le> m \<longrightarrow> ParseSwitchStatement m sampleEnv (input [kw_switch, l_paren, l_brace]) = Returned r) \<and>
          ParseSwitchStatement m sampleEnv (input [kw_switch, l_paren, l_brace]) \<noteq> AssertionFailed)
   \<and> (\<exists>n r. \<forall>m. (n \<le> m \<longrightarrow> ParseWhileStatement m sampleEnv (input [kw_while, kw_while]) = Returned r) \<and>
          ParseWhileStatement m sampleEnv (input [kw_while, kw_while]) \<noteq> AssertionFailed)
   \<and> (\<exists>n r. \<forall>m. (n \<le> m \<longrightarrow> ParseDoStatement m sampleEnv (input [kw_do, kw_do, kw_while]) = Returned r) \<and>
          ParseDoStatement m sampleEnv (input [kw_do, kw_do, kw_while]) \<noteq> AssertionFailed)
   \<and> (\<exists>n r. \<forall>m. (n \<le> m \<longrightarrow> ParseForStatement m sampleEnv (input [kw_for, l_paren, kw_int, semi, star, r_paren]) = Returned r) \<and>
          ParseForStatement m sampleEnv (input [kw_for, l_paren, kw_int, semi, star, r_paren]) \<noteq> AssertionFailed)
   \<and> (\<exists>r. ParseGotoStatement sampleEnv (input [kw_goto, star]) = Returned r)
   \<and> (\<exists>r. ParseReturnStatement sampleEnv (input [kw_return]) = Returned r)"
proof -
  note R = routines_return [OF wellBehaved_sampleEnv]
  have k: "kind (Tok (input [l_brace, l_brace, kw_else, semi])) = l_brace"
    "kind (Tok (input [kw_if, l_paren, r_paren, kw_else, kw_else])) = kw_if"
    "kind (Tok (input [kw_switch, l_paren, l_brace])) = kw_switch"
    "kind (Tok (input [kw_while, kw_while])) = kw_while"
    "kind (Tok (input [kw_do, kw_do, kw_while])) = kw_do"
    "kind (Tok (input [kw_for, l_paren, kw_int, semi, star, r_paren])) = kw_for"
    "kind (Tok (input [kw_goto, star])) = kw_goto"
    "kind (Tok (input [kw_return])) = kw_return"
    by (simp_all add: input_def tk_def Tok_def)
  note c2 = conjunct2
  show ?thesis
    by (intro conjI wellBehaved_sampleEnv
        R [THEN conjunct1]
        R [THEN c2, THEN conjunct1, rule_format, OF k(1)]
        R [THEN c2, THEN c2, THEN conjunct1, rule_format, OF k(2)]
        R [THEN c2, THEN c2, THEN c2, THEN conjunct1, rule_format, OF k(3)]
        R [THEN c2, THEN c2, THEN c2, THEN c2, THEN conjunct1, rule_format, OF k(4)]
        R [THEN c2, THEN c2, THEN c2, THEN c2, THEN c2, THEN conjunct1, rule_format, OF k(5)]
        R [THEN c2, THEN c2, THEN c2, THEN c2, THEN c2, THEN c2, THEN conjunct1,
          rule_format, OF k(6)]
        R [THEN c2, THEN c2, THEN c2, THEN c2, THEN c2, THEN c2, THEN c2, THEN conjunct1,
          rule_format, OF k(7)]
        R [THEN c2, THEN c2, THEN c2, THEN c2, THEN c2, THEN c2, THEN c2, THEN c2,
          rule_format, OF k(8)])
qed

end
